theory Spec2Isabelle
  imports Main "HOL-Library.Char_ord" "HOL-Library.List_Lexorder" "HOL-Library.AList"
begin

section \<open>The folder adapter of immich-go: data model\<close>

text \<open>
  The development embeds the Go package \<open>folder\<close> (type \<open>LocalAssetBrowser\<close> with
  \<open>NewLocalFiles\<close>, \<open>Browse\<close>, \<open>passOneFsWalk\<close>, \<open>passTwo\<close> and \<open>assetFromFile\<close>).
  Strings are byte lists, Go maps whose keys are enumerated are association lists with
  distinct keys, and every effect of the code (events recorded, handles closed, groups
  pushed on the channel, polls of the context) is a field of an explicit state.
\<close>

datatype mediaType = TypeUnknown | TypeImage | TypeVideo | TypeSidecar

datatype folderMode = FolderModeNone | FolderModeFolder | FolderModePath

text \<open>
  Go errors. \<open>SkipDir\<close> and \<open>SkipAll\<close> are the sentinels of \<open>io/fs\<close>; \<open>ErrNew\<close> is
  \<open>errors.New\<close>; \<open>ErrCtx\<close> is what \<open>ctx.Err()\<close> returns; \<open>ErrExt\<close> is an error that comes from
  a collaborator (file system, metadata reader, exiftool).
\<close>

datatype error = SkipDir | SkipAll | ErrNew string | ErrCtx string | ErrExt string

fun errorString :: "error \<Rightarrow> string" where
  "errorString SkipDir = ''skip this directory''"
| "errorString SkipAll = ''skip everything and stop the walk''"
| "errorString (ErrNew m) = m"
| "errorString (ErrCtx m) = m"
| "errorString (ErrExt m) = m"

datatype eventCode =
    DiscoveredImage | DiscoveredVideo | DiscoveredSidecar | DiscoveredUnsupported
  | DiscoveredDiscarded | AnalysisAssociatedMetadata | Error

text \<open>An event of the recorder: code, tree identity, file name, key/value arguments.\<close>

type_synonym event = "eventCode \<times> nat \<times> string \<times> (string \<times> string) list"

text \<open>
  A directory entry of a virtual tree, as \<open>fs.WalkDir\<close> sees it: a file, or a directory
  with the result of \<open>ReadDir\<close> on it (an optional error and the entries read).
\<close>

datatype node = FileNode string | DirNode string "error option" "node list"

fun nodeName :: "node \<Rightarrow> string" where
  "nodeName (FileNode n) = n"
| "nodeName (DirNode n e ks) = n"

text \<open>
  A tree (\<open>fs.FS\<close>). \<open>fsid\<close> is its identity (Go uses the interface value as a map key),
  \<open>fsName\<close> is \<open>Some n\<close> when the tree implements \<open>fshelper.NameFS\<close> with \<open>Name() = n\<close>,
  \<open>fsRoot\<close> is the result of \<open>Stat\<close> on the root together with the hierarchy below, and
  \<open>fsStat\<close> is \<open>fs.Stat\<close> on a file, giving its size.
\<close>

record FS =
  fsid :: nat
  fsName :: "string option"
  fsRoot :: "error + node"
  fsStat :: "string \<Rightarrow> error + int"

record ImportFlags =
  ImportIntoAlbum :: string
  UsePathAsAlbumName :: folderMode
  AlbumNamePathSeparator :: string
  Recursive :: bool
  IgnoreSideCarFiles :: bool
  BannedFiles :: "string \<Rightarrow> bool"
  SupportedMedia :: "string \<Rightarrow> mediaType"
  IncludedExtensions :: "string \<Rightarrow> bool"
  ExcludedExtensions :: "string \<Rightarrow> bool"
  DateRangeIsSet :: bool
  DateRangeInRange :: "int \<Rightarrow> bool"
  UseExifTool :: bool

record fileLinks =
  image' :: string
  video :: string
  sidecar :: string

record LocalAssetFile =
  FileName :: string
  Title :: string
  FSys :: nat
  FileSize :: int
  DateTaken :: int

datatype groupKind = GroupKindNone | GroupKindMotionPhoto

record LocalAlbum =
  Path :: string
  AlbumTitle :: string

record AssetGroup =
  Kind :: groupKind
  Assets :: "LocalAssetFile list"
  CoverIndex :: nat
  SideCar :: "(nat \<times> string) option"
  Albums :: "LocalAlbum list"

type_synonym catalog = "(string \<times> string list) list"

text \<open>
  The struct \<open>LocalAssetBrowser\<close>. \<open>log\<close> holds the events recorded through the
  recorder the browser points to; \<open>exiftool\<close> is \<open>Some ()\<close> when the external tool was
  started.
\<close>

record LocalAssetBrowser =
  fsyss :: "FS list"
  albums :: "(string \<times> string) list"
  catalogs :: "nat \<Rightarrow> catalog option"
  log :: "event list"
  flags :: ImportFlags
  exiftool :: "unit option"

text \<open>
  The state of a scan: the browser, and what the scan does to the world. \<open>closed\<close> lists
  the asset handles released by \<open>a.Close()\<close>, \<open>fileChan\<close> the groups pushed on the
  channel (the consumer is assumed to drain it), \<open>polls\<close> counts the polls of
  \<open>ctx.Done()\<close>, \<open>ranges\<close> counts the \<open>range\<close> statements executed over the link map, and
  \<open>exiftoolClosed\<close> records the deferred \<open>la.exiftool.Close()\<close>.
\<close>

record state = LocalAssetBrowser +
  closed :: "(nat \<times> string) list"
  fileChan :: "AssetGroup list"
  polls :: nat
  ranges :: nat
  exiftoolClosed :: bool

text \<open>
  What the code cannot decide by itself. \<open>ctx n\<close> is the context at its \<open>n\<close>-th poll:
  \<open>None\<close> while it is live, \<open>Some e\<close> once \<open>ctx.Done()\<close> is closed and \<open>ctx.Err() = e\<close>.
  \<open>rangeOrder n ks\<close> is the order in which the \<open>n\<close>-th \<open>range\<close> over a Go map with keys
  \<open>ks\<close> yields them (the language leaves it unspecified, and it may differ between two
  \<open>range\<close> statements over the same map). \<open>ReadMetadata\<close> is the metadata reader, giving
  the date taken of a file of a tree; \<open>NewExifTool\<close> is the start of the external tool.
\<close>

record env =
  ctx :: "nat \<Rightarrow> error option"
  rangeOrder :: "nat \<Rightarrow> string list \<Rightarrow> string list"
  ReadMetadata :: "nat \<Rightarrow> string \<Rightarrow> error + int"
  NewExifTool :: "error + unit"

section \<open>Strings and paths (Go's strings, path and path/filepath on a slash platform)\<close>

definition TrimSuffix :: "string \<Rightarrow> string \<Rightarrow> string" where
  "TrimSuffix s suffix =
     (if length suffix \<le> length s \<and> drop (length s - length suffix) s = suffix
      then take (length s - length suffix) s else s)"

text \<open>\<open>path.Ext\<close>: scan from the end, stop at a slash, return the suffix from the last dot.\<close>

fun ExtRev :: "string \<Rightarrow> string \<Rightarrow> string" where
  "ExtRev [] acc = []"
| "ExtRev (c # cs) acc =
     (if c = CHR ''/'' then []
      else if c = CHR ''.'' then c # acc
      else ExtRev cs (c # acc))"

definition Ext :: "string \<Rightarrow> string" where
  "Ext p = ExtRev (rev p) []"

text \<open>\<open>filepath.Split\<close>: cut right after the last separator.\<close>

definition Split :: "string \<Rightarrow> string \<times> string" where
  "Split p =
     (rev (dropWhile (\<lambda>c. c \<noteq> CHR ''/'') (rev p)),
      rev (takeWhile (\<lambda>c. c \<noteq> CHR ''/'') (rev p)))"

text \<open>\<open>strings.Split\<close> on a one-byte separator, and \<open>strings.Join\<close>.\<close>

fun splitOn :: "char \<Rightarrow> string \<Rightarrow> string list" where
  "splitOn c [] = [[]]"
| "splitOn c (x # xs) =
     (if x = c then [] # splitOn c xs
      else (case splitOn c xs of [] \<Rightarrow> [[x]] | w # ws \<Rightarrow> (x # w) # ws))"

fun Join :: "string list \<Rightarrow> string \<Rightarrow> string" where
  "Join [] sep = []"
| "Join [x] sep = x"
| "Join (x # y # ys) sep = x @ sep @ Join (y # ys) sep"

text \<open>
  \<open>filepath.Clean\<close>, by path elements: empty and \<open>.\<close> elements are dropped, a \<open>..\<close>
  element removes the element before it when there is one that is not itself \<open>..\<close>, is
  kept on a path that is not rooted, and is dropped at the root; the empty result is
  \<open>.\<close>.
\<close>

definition cleanStep :: "bool \<Rightarrow> string list \<Rightarrow> string \<Rightarrow> string list" where
  "cleanStep rooted out el =
     (if el = [] \<or> el = ''.'' then out
      else if el = ''..'' then
        (if out \<noteq> [] \<and> last out \<noteq> ''..'' then butlast out
         else if \<not> rooted then out @ [el]
         else out)
      else out @ [el])"

definition Clean :: "string \<Rightarrow> string" where
  "Clean p =
     (if p = [] then ''.''
      else
        (let rooted = (hd p = CHR ''/'');
             out = foldl (cleanStep rooted) [] (splitOn (CHR ''/'') p);
             r = (if rooted then ''/'' else []) @ Join out ''/''
         in if r = [] then ''.'' else r))"

text \<open>\<open>filepath.Dir\<close>: everything up to the last separator, cleaned.\<close>

definition Dir :: "string \<Rightarrow> string" where
  "Dir p = Clean (fst (Split p))"

text \<open>\<open>filepath.Base\<close>: the last element, after stripping trailing separators.\<close>

definition Base :: "string \<Rightarrow> string" where
  "Base p =
     (if p = [] then ''.''
      else
        (let q = rev (dropWhile (\<lambda>c. c = CHR ''/'') (rev p));
             b = snd (Split q)
         in if b = [] then ''/'' else b))"

text \<open>\<open>path.Join name d\<close> as \<open>fs.WalkDir\<close> uses it, on an entry name \<open>d\<close> of one element.\<close>

definition pathJoin :: "string \<Rightarrow> string \<Rightarrow> string" where
  "pathJoin name d = Clean (name @ ''/'' @ d)"

section \<open>Effects\<close>

text \<open>\<open>la.log.Record(ctx, code, fileevent.AsFileAndName(fsys, name), args...)\<close>.\<close>

definition Record ::
  "eventCode \<Rightarrow> FS \<Rightarrow> string \<Rightarrow> (string \<times> string) list \<Rightarrow> state \<Rightarrow> state" where
  "Record c fsys name args s = s\<lparr>log := log s @ [(c, fsid fsys, name, args)]\<rparr>"

text \<open>\<open>a.Close()\<close> on the handle of file \<open>name\<close> of tree \<open>fsys\<close>.\<close>

definition Close :: "FS \<Rightarrow> string \<Rightarrow> state \<Rightarrow> state" where
  "Close fsys name s = s\<lparr>closed := closed s @ [(fsid fsys, name)]\<rparr>"

text \<open>One poll of the context: the answer, and the state with the poll counted.\<close>

definition poll :: "env \<Rightarrow> state \<Rightarrow> error option \<times> state" where
  "poll e s = (ctx e (polls s), s\<lparr>polls := Suc (polls s)\<rparr>)"

section \<open>Construction\<close>

definition NewLocalFiles ::
  "env \<Rightarrow> event list \<Rightarrow> ImportFlags \<Rightarrow> FS list \<Rightarrow> error + LocalAssetBrowser" where
  "NewLocalFiles e l fl fs =
     (if ImportIntoAlbum fl \<noteq> [] \<and> UsePathAsAlbumName fl \<noteq> FolderModeNone
      then Inl (ErrNew ''cannot use both --into-album and --folder-as-album'')
      else
        (let la = \<lparr>fsyss = fs, albums = [], catalogs = Map.empty, log = l, flags = fl,
                   exiftool = None\<rparr>
         in if UseExifTool fl
            then (case NewExifTool e of
                    Inl err \<Rightarrow> Inl err
                  | Inr et \<Rightarrow> Inr (la\<lparr>exiftool := Some et\<rparr>))
            else Inr la))"

section \<open>Pass one: the walk of a tree\<close>

text \<open>\<open>la.catalogs[fsys]\<close> and \<open>la.catalogs[fsys][dir]\<close>; a missing key reads as empty.\<close>

definition catalogOf :: "state \<Rightarrow> FS \<Rightarrow> catalog" where
  "catalogOf s fsys = (case catalogs s (fsid fsys) of None \<Rightarrow> [] | Some c \<Rightarrow> c)"

definition bucket :: "state \<Rightarrow> FS \<Rightarrow> string \<Rightarrow> string list" where
  "bucket s fsys dir = (case map_of (catalogOf s fsys) dir of None \<Rightarrow> [] | Some fs \<Rightarrow> fs)"

text \<open>\<open>la.catalogs[fsys][dir] = v\<close>.\<close>

definition setBucket :: "FS \<Rightarrow> string \<Rightarrow> string list \<Rightarrow> state \<Rightarrow> state" where
  "setBucket fsys dir v s =
     s\<lparr>catalogs := (catalogs s)(fsid fsys \<mapsto> AList.update dir v (catalogOf s fsys))\<rparr>"

text \<open>The end of the callback on a file: the extension lists, then the append.\<close>

definition walkInclude ::
  "FS \<Rightarrow> string \<Rightarrow> string \<Rightarrow> string \<Rightarrow> string list \<Rightarrow> state \<Rightarrow> error option \<times> state" where
  "walkInclude fsys name dir ext cat s =
     (if \<not> IncludedExtensions (flags s) ext
      then (None, Record DiscoveredDiscarded fsys name
                    [(''reason'', ''extension not included'')] s)
      else if ExcludedExtensions (flags s) ext
      then (None, Record DiscoveredDiscarded fsys name
                    [(''reason'', ''extension excluded'')] s)
      else (None, setBucket fsys dir (cat @ [name]) s))"

text \<open>The \<open>default\<close> branch of the callback's \<open>select\<close>: a file, the context being live.\<close>

definition walkFile :: "FS \<Rightarrow> string \<Rightarrow> state \<Rightarrow> error option \<times> state" where
  "walkFile fsys name s =
     (if BannedFiles (flags s) name
      then (None, Record DiscoveredDiscarded fsys name [(''reason'', ''banned file'')] s)
      else
        (let base = snd (Split name);
             dir0 = TrimSuffix (fst (Split name)) ''/'';
             dir = (if dir0 = [] then ''.'' else dir0);
             ext = Ext base;
             mediaType = SupportedMedia (flags s) ext
         in if mediaType = TypeUnknown
            then (None, Record DiscoveredUnsupported fsys name
                          [(''reason'', ''unsupported file type'')] s)
            else
              (let cat = bucket s fsys dir
               in case mediaType of
                    TypeImage \<Rightarrow>
                      walkInclude fsys name dir ext cat (Record DiscoveredImage fsys name [] s)
                  | TypeVideo \<Rightarrow>
                      walkInclude fsys name dir ext cat (Record DiscoveredVideo fsys name [] s)
                  | TypeSidecar \<Rightarrow>
                      (let s1 = Record DiscoveredSidecar fsys name [] s
                       in if IgnoreSideCarFiles (flags s1)
                          then (None, Record DiscoveredDiscarded fsys name
                                        [(''reason'', ''sidecar file ignored'')] s1)
                          else walkInclude fsys name dir ext cat s1)
                  | TypeUnknown \<Rightarrow> walkInclude fsys name dir ext cat s)))"

text \<open>
  The callback given to \<open>fs.WalkDir\<close>: \<open>isDir\<close> is \<open>d.IsDir()\<close> and \<open>err\<close> the error the
  walk reports for the entry.
\<close>

definition walkFn ::
  "env \<Rightarrow> FS \<Rightarrow> string \<Rightarrow> bool \<Rightarrow> error option \<Rightarrow> state \<Rightarrow> error option \<times> state" where
  "walkFn e fsys name isDir err s =
     (case err of
        Some x \<Rightarrow> (Some x, s)
      | None \<Rightarrow>
          if isDir then
            (if \<not> Recursive (flags s) \<and> name \<noteq> ''.'' then (Some SkipDir, s)
             else (None, setBucket fsys name [] s))
          else
            (case poll e s of
               (Some cerr, s1) \<Rightarrow> (Some cerr, s1)
             | (None, s1) \<Rightarrow> walkFile fsys name s1))"

text \<open>
  \<open>fs.WalkDir\<close> and its recursive \<open>walkDir\<close>: the callback on the entry; for a
  directory the entries read (after a second call of the callback when \<open>ReadDir\<close>
  failed), each walked in turn. \<open>SkipDir\<close> from a directory skips it, \<open>SkipDir\<close> from
  an entry ends its parent's loop, any other error ends the walk.
\<close>

fun walkDir ::
    "(string \<Rightarrow> bool \<Rightarrow> error option \<Rightarrow> 's \<Rightarrow> error option \<times> 's) \<Rightarrow>
     string \<Rightarrow> node \<Rightarrow> 's \<Rightarrow> error option \<times> 's"
  and walkEntries ::
    "(string \<Rightarrow> bool \<Rightarrow> error option \<Rightarrow> 's \<Rightarrow> error option \<times> 's) \<Rightarrow>
     string \<Rightarrow> node list \<Rightarrow> 's \<Rightarrow> error option \<times> 's" where
  "walkDir fn name (FileNode n) s = fn name False None s"
| "walkDir fn name (DirNode n rerr dirs) s =
     (case fn name True None s of
        (Some err, s1) \<Rightarrow> (if err = SkipDir then None else Some err, s1)
      | (None, s1) \<Rightarrow>
          (case rerr of
             None \<Rightarrow> walkEntries fn name dirs s1
           | Some re \<Rightarrow>
               (case fn name True (Some re) s1 of
                  (Some err, s2) \<Rightarrow> (if err = SkipDir then None else Some err, s2)
                | (None, s2) \<Rightarrow> walkEntries fn name dirs s2)))"
| "walkEntries fn name [] s = (None, s)"
| "walkEntries fn name (d1 # ds) s =
     (case walkDir fn (pathJoin name (nodeName d1)) d1 s of
        (Some err, s1) \<Rightarrow> (if err = SkipDir then None else Some err, s1)
      | (None, s1) \<Rightarrow> walkEntries fn name ds s1)"

definition WalkDir ::
  "(string \<Rightarrow> bool \<Rightarrow> error option \<Rightarrow> 's \<Rightarrow> error option \<times> 's) \<Rightarrow>
   error + node \<Rightarrow> 's \<Rightarrow> error option \<times> 's" where
  "WalkDir fn root s =
     (case (case root of
              Inl err \<Rightarrow> fn ''.'' False (Some err) s
            | Inr d \<Rightarrow> walkDir fn ''.'' d s) of
        (err, s1) \<Rightarrow> (if err = Some SkipDir \<or> err = Some SkipAll then None else err, s1))"

definition passOneFsWalk :: "env \<Rightarrow> FS \<Rightarrow> state \<Rightarrow> error option \<times> state" where
  "passOneFsWalk e fsys s =
     WalkDir (walkFn e fsys) (fsRoot fsys) (s\<lparr>catalogs := (catalogs s)(fsid fsys \<mapsto> [])\<rparr>)"

section \<open>Pass two: linking the files of a directory\<close>

type_synonym links = "(string \<times> fileLinks) list"

text \<open>\<open>links[k]\<close>: the zero value of \<open>fileLinks\<close> when the key is missing.\<close>

definition linksAt :: "links \<Rightarrow> string \<Rightarrow> fileLinks" where
  "linksAt ls k =
     (case map_of ls k of
        None \<Rightarrow> \<lparr>image' = [], video = [], sidecar = []\<rparr>
      | Some l \<Rightarrow> l)"

text \<open>\<open>gen.MapKeys\<close> followed by \<open>sort.Strings\<close>.\<close>

definition sortedKeys :: "(string \<times> 'v) list \<Rightarrow> string list" where
  "sortedKeys m = sort (map fst m)"

text \<open>The loop "scan images first".\<close>

fun scanImages :: "ImportFlags \<Rightarrow> string list \<Rightarrow> links \<Rightarrow> links" where
  "scanImages fl [] ls = ls"
| "scanImages fl (file # files) ls =
     (if SupportedMedia fl (Ext file) = TypeImage
      then scanImages fl files (AList.update file ((linksAt ls file)\<lparr>image' := file\<rparr>) ls)
      else scanImages fl files ls)"

text \<open>
  \<open>for f := range links\<close> of the sidecar case, over the keys in the order the \<open>range\<close>
  yields them: \<open>Some\<close> is the map after the attachment (\<open>continue next\<close>), \<open>None\<close> the
  end of the loop without a match.
\<close>

fun rangeSidecar :: "string \<Rightarrow> string \<Rightarrow> links \<Rightarrow> string list \<Rightarrow> links option" where
  "rangeSidecar base file ls [] = None"
| "rangeSidecar base file ls (f # fs) =
     (if TrimSuffix f (Ext f) = base
      then (case map_of ls f of
              Some img \<Rightarrow> Some (AList.update f (img\<lparr>sidecar := file\<rparr>) ls)
            | None \<Rightarrow> rangeSidecar base file ls fs)
      else rangeSidecar base file ls fs)"

text \<open>The same loop of the video case, with its two tests on each key.\<close>

fun rangeVideo :: "string \<Rightarrow> string \<Rightarrow> links \<Rightarrow> string list \<Rightarrow> links option" where
  "rangeVideo base file ls [] = None"
| "rangeVideo base file ls (f # fs) =
     (case (if TrimSuffix f (Ext f) = base then map_of ls f else None) of
        Some img \<Rightarrow> Some (AList.update f (img\<lparr>video := file\<rparr>) ls)
      | None \<Rightarrow>
          (case (if TrimSuffix f (Ext f) = file then map_of ls f else None) of
             Some img \<Rightarrow> Some (AList.update f (img\<lparr>video := file\<rparr>) ls)
           | None \<Rightarrow> rangeVideo base file ls fs))"

text \<open>One iteration of the loop labelled \<open>next\<close>.\<close>

definition linkFile :: "env \<Rightarrow> string \<Rightarrow> links \<times> state \<Rightarrow> links \<times> state" where
  "linkFile e file lss =
     (let ls = fst lss; s = snd lss;
          ext = Ext file;
          t = SupportedMedia (flags s) ext
      in if t = TypeImage then (ls, s)
         else
           (let base = TrimSuffix file ext;
                s1 = s\<lparr>ranges := Suc (ranges s)\<rparr>
            in case t of
                 TypeSidecar \<Rightarrow>
                   (case map_of ls base of
                      Some img \<Rightarrow> (AList.update base (img\<lparr>sidecar := file\<rparr>) ls, s)
                    | None \<Rightarrow>
                        (case rangeSidecar base file ls
                                (rangeOrder e (ranges s) (sortedKeys ls)) of
                           Some ls1 \<Rightarrow> (ls1, s1)
                         | None \<Rightarrow> (ls, s1)))
               | TypeVideo \<Rightarrow>
                   (case map_of ls base of
                      Some img \<Rightarrow> (AList.update base (img\<lparr>sidecar := file\<rparr>) ls, s)
                    | None \<Rightarrow>
                        (case rangeVideo base file ls
                                (rangeOrder e (ranges s) (sortedKeys ls)) of
                           Some ls1 \<Rightarrow> (ls1, s1)
                         | None \<Rightarrow>
                             (AList.update file \<lparr>image' = [], video = file, sidecar = []\<rparr> ls,
                              s1)))
               | _ \<Rightarrow> (ls, s)))"

fun linkFiles :: "env \<Rightarrow> string list \<Rightarrow> links \<times> state \<Rightarrow> links \<times> state" where
  "linkFiles e [] lss = lss"
| "linkFiles e (file # files) lss = linkFiles e files (linkFile e file lss)"

text \<open>The link map of a directory's bucket, and the state after building it.\<close>

definition buildLinks :: "env \<Rightarrow> string list \<Rightarrow> state \<Rightarrow> links \<times> state" where
  "buildLinks e files s = linkFiles e files (scanImages (flags s) files [], s)"

section \<open>The asset materializer\<close>

definition assetFromFile ::
  "env \<Rightarrow> FS \<Rightarrow> string \<Rightarrow> state \<Rightarrow> (LocalAssetFile option \<times> error option) \<times> state" where
  "assetFromFile e fsys name s =
     (case ReadMetadata e (fsid fsys) name of
        Inl err \<Rightarrow> ((None, Some err), Close fsys name s)
      | Inr date \<Rightarrow>
          (case fsStat fsys name of
             Inl err \<Rightarrow> ((None, Some err), Close fsys name s)
           | Inr sz \<Rightarrow>
               if DateRangeIsSet (flags s) \<and> \<not> DateRangeInRange (flags s) date
               then ((None, None),
                     Record DiscoveredDiscarded fsys name
                       [(''reason'', ''asset outside date range'')] (Close fsys name s))
               else ((Some \<lparr>FileName = name, Title = Base name, FSys = fsid fsys,
                            FileSize = sz, DateTaken = date\<rparr>, None), s)))"

section \<open>Pass two: from a link entry to a group\<close>

text \<open>The closure \<open>errFn\<close>.\<close>

definition errFn :: "FS \<Rightarrow> string \<Rightarrow> error option \<Rightarrow> state \<Rightarrow> state" where
  "errFn fsys name err s =
     (case err of
        None \<Rightarrow> s
      | Some x \<Rightarrow> Record Error fsys name [(''error'', errorString x)] s)"

text \<open>
  The \<open>switch\<close> on a link entry: \<open>Abort\<close> is the \<open>return\<close> of the task, \<open>Skip\<close> is
  \<open>continue\<close> (also taken when no group was built), \<open>Built a g\<close> is the primary asset
  \<open>a\<close> and the group \<open>g\<close>.
\<close>

datatype built = Abort | Skip | Built LocalAssetFile AssetGroup

definition newGroup :: "groupKind \<Rightarrow> LocalAssetFile list \<Rightarrow> AssetGroup" where
  "newGroup k as = \<lparr>Kind = k, Assets = as, CoverIndex = 0, SideCar = None, Albums = []\<rparr>"

definition buildSingle :: "env \<Rightarrow> FS \<Rightarrow> string \<Rightarrow> state \<Rightarrow> built \<times> state" where
  "buildSingle e fsys name s =
     (case assetFromFile e fsys name s of
        ((a, Some err), s1) \<Rightarrow> (Abort, errFn fsys name (Some err) s1)
      | ((None, None), s1) \<Rightarrow> (Skip, s1)
      | ((Some a, None), s1) \<Rightarrow> (Built a (newGroup GroupKindNone [a]), s1))"

definition buildGroup :: "env \<Rightarrow> FS \<Rightarrow> fileLinks \<Rightarrow> state \<Rightarrow> built \<times> state" where
  "buildGroup e fsys linked s =
     (if image' linked \<noteq> [] \<and> video linked \<noteq> [] then
        (case assetFromFile e fsys (image' linked) s of
           ((a, Some err), s1) \<Rightarrow> (Abort, errFn fsys (image' linked) (Some err) s1)
         | ((None, None), s1) \<Rightarrow> (Skip, s1)
         | ((Some a, None), s1) \<Rightarrow>
             (case assetFromFile e fsys (video linked) s1 of
                ((Some i, err), s2) \<Rightarrow> (Built a (newGroup GroupKindMotionPhoto [a, i]), s2)
              | ((None, err), s2) \<Rightarrow>
                  (Built a (newGroup GroupKindNone [a]), errFn fsys (video linked) err s2)))
      else if image' linked \<noteq> [] then buildSingle e fsys (image' linked) s
      else if video linked \<noteq> [] then buildSingle e fsys (video linked) s
      else (Skip, s))"

definition attachSideCar ::
  "FS \<Rightarrow> fileLinks \<Rightarrow> LocalAssetFile \<Rightarrow> AssetGroup \<Rightarrow> state \<Rightarrow> AssetGroup \<times> state" where
  "attachSideCar fsys linked a g s =
     (if sidecar linked \<noteq> []
      then (g\<lparr>SideCar := Some (fsid fsys, sidecar linked)\<rparr>,
            Record AnalysisAssociatedMetadata fsys (FileName a)
              [(''sidecar'', sidecar linked)] s)
      else (g, s))"

text \<open>"manage album options".\<close>

definition manageAlbums :: "ImportFlags \<Rightarrow> FS \<Rightarrow> LocalAssetFile \<Rightarrow> AssetGroup \<Rightarrow> AssetGroup" where
  "manageAlbums fl fsys a g =
     (if ImportIntoAlbum fl \<noteq> [] then
        g\<lparr>Albums := Albums g @ [\<lparr>Path = FileName a, AlbumTitle = ImportIntoAlbum fl\<rparr>]\<rparr>
      else
        (case UsePathAsAlbumName fl of
           FolderModeNone \<Rightarrow> g
         | FolderModeFolder \<Rightarrow>
             (let title0 = Base (Dir (FileName a));
                  title = (if title0 = ''.''
                           then (case fsName fsys of Some n \<Rightarrow> n | None \<Rightarrow> title0)
                           else title0)
              in if title \<noteq> []
                 then g\<lparr>Albums := Albums g @ [\<lparr>Path = FileName a, AlbumTitle = title\<rparr>]\<rparr>
                 else g)
         | FolderModePath \<Rightarrow>
             (let parts0 = (case fsName fsys of Some n \<Rightarrow> [n] | None \<Rightarrow> []);
                  path = Dir (FileName a);
                  parts = (if path \<noteq> ''.'' then parts0 @ splitOn (CHR ''/'') path else parts0);
                  title = Join parts (AlbumNamePathSeparator fl)
              in g\<lparr>Albums := Albums g @ [\<lparr>Path = Dir (FileName a), AlbumTitle = title\<rparr>]\<rparr>)))"

text \<open>Loop control: \<open>Next\<close> goes on with the loop, \<open>Return\<close> leaves the task.\<close>

datatype flow = Next | Return

text \<open>The final \<open>select\<close>: leave when the context is done, push the group otherwise.\<close>

definition emit :: "env \<Rightarrow> AssetGroup \<Rightarrow> state \<Rightarrow> flow \<times> state" where
  "emit e g s =
     (case poll e s of
        (Some cerr, s1) \<Rightarrow> (Return, s1)
      | (None, s1) \<Rightarrow> (Next, s1\<lparr>fileChan := fileChan s1 @ [g]\<rparr>))"

text \<open>The body of the loop over the sorted keys of the link map.\<close>

definition processLinked :: "env \<Rightarrow> FS \<Rightarrow> fileLinks \<Rightarrow> state \<Rightarrow> flow \<times> state" where
  "processLinked e fsys linked s =
     (case buildGroup e fsys linked s of
        (Abort, s1) \<Rightarrow> (Return, s1)
      | (Skip, s1) \<Rightarrow> (Next, s1)
      | (Built a g, s1) \<Rightarrow>
          (case attachSideCar fsys linked a g s1 of
             (g1, s2) \<Rightarrow> emit e (manageAlbums (flags s2) fsys a g1) s2))"

fun resolveLoop :: "env \<Rightarrow> FS \<Rightarrow> links \<Rightarrow> string list \<Rightarrow> state \<Rightarrow> flow \<times> state" where
  "resolveLoop e fsys ls [] s = (Next, s)"
| "resolveLoop e fsys ls (file # files) s =
     (case processLinked e fsys (linksAt ls file) s of
        (Return, s1) \<Rightarrow> (Return, s1)
      | (Next, s1) \<Rightarrow> resolveLoop e fsys ls files s1)"

text \<open>The body of the loop over the directories of a tree.\<close>

definition passTwoDir :: "env \<Rightarrow> FS \<Rightarrow> string \<Rightarrow> state \<Rightarrow> flow \<times> state" where
  "passTwoDir e fsys dir s =
     (let files = bucket s fsys dir
      in if length files = 0 then (Next, s)
         else (case buildLinks e files s of
                 (ls, s1) \<Rightarrow> resolveLoop e fsys ls (sortedKeys ls) s1))"

fun dirsLoop :: "env \<Rightarrow> FS \<Rightarrow> string list \<Rightarrow> state \<Rightarrow> flow \<times> state" where
  "dirsLoop e fsys [] s = (Next, s)"
| "dirsLoop e fsys (dir # dirs) s =
     (case passTwoDir e fsys dir s of
        (Return, s1) \<Rightarrow> (Return, s1)
      | (Next, s1) \<Rightarrow> dirsLoop e fsys dirs s1)"

fun fsysLoop :: "env \<Rightarrow> FS list \<Rightarrow> state \<Rightarrow> flow \<times> state" where
  "fsysLoop e [] s = (Next, s)"
| "fsysLoop e (fsys # rest) s =
     (case dirsLoop e fsys (sortedKeys (catalogOf s fsys)) s of
        (Return, s1) \<Rightarrow> (Return, s1)
      | (Next, s1) \<Rightarrow> fsysLoop e rest s1)"

text \<open>
  The task started by \<open>passTwo\<close>: on every way out the channel is closed and the
  deferred close of the external tool runs.
\<close>

definition passTwo :: "env \<Rightarrow> state \<Rightarrow> state" where
  "passTwo e s =
     (let s1 = snd (fsysLoop e (fsyss s) s)
      in if exiftool s1 \<noteq> None then s1\<lparr>exiftoolClosed := True\<rparr> else s1)"

section \<open>The top-level operation\<close>

fun passOneAll :: "env \<Rightarrow> FS list \<Rightarrow> state \<Rightarrow> error option \<times> state" where
  "passOneAll e [] s = (None, s)"
| "passOneAll e (fsys # rest) s =
     (case passOneFsWalk e fsys s of
        (Some err, s1) \<Rightarrow> (Some err, s1)
      | (None, s1) \<Rightarrow> passOneAll e rest s1)"

text \<open>
  \<open>Browse\<close> returns the channel and an error. The error is the one of pass one; when
  pass one succeeds the error returned is \<open>nil\<close> and the channel carries what the task
  of pass two pushes (\<open>fileChan\<close> of the resulting state).
\<close>

definition Browse :: "env \<Rightarrow> state \<Rightarrow> error option \<times> state" where
  "Browse e s =
     (case passOneAll e (fsyss s) s of
        (Some err, s1) \<Rightarrow> (Some err, s1)
      | (None, s1) \<Rightarrow> (None, passTwo e s1))"

text \<open>The state in which a scan of a freshly constructed browser starts.\<close>

definition startScan :: "LocalAssetBrowser \<Rightarrow> state" where
  "startScan la =
     \<lparr>fsyss = fsyss la, albums = albums la, catalogs = catalogs la, log = log la,
      flags = flags la, exiftool = exiftool la,
      closed = [], fileChan = [], polls = 0, ranges = 0, exiftoolClosed = False\<rparr>"

section \<open>Concrete configurations\<close>

text \<open>
  A classifier, flags, an environment and a tree on which the definitions are
  evaluated: images are \<open>.jpg\<close> and \<open>.png\<close>, videos \<open>.mp4\<close> and \<open>.MP4\<close>, sidecars
  \<open>.xmp\<close>; the context is never cancelled, the metadata reader and \<open>Stat\<close> succeed,
  and \<open>range\<close> yields the keys in sorted order.
\<close>

definition demoMedia :: "string \<Rightarrow> mediaType" where
  "demoMedia ext =
     (if ext = ''.jpg'' \<or> ext = ''.png'' then TypeImage
      else if ext = ''.mp4'' \<or> ext = ''.MP4'' then TypeVideo
      else if ext = ''.xmp'' then TypeSidecar
      else TypeUnknown)"

definition demoFlags :: ImportFlags where
  "demoFlags =
     \<lparr>ImportIntoAlbum = [], UsePathAsAlbumName = FolderModeNone,
      AlbumNamePathSeparator = ''#'', Recursive = True, IgnoreSideCarFiles = False,
      BannedFiles = (\<lambda>n. False), SupportedMedia = demoMedia,
      IncludedExtensions = (\<lambda>x. True), ExcludedExtensions = (\<lambda>x. False),
      DateRangeIsSet = False, DateRangeInRange = (\<lambda>d. True), UseExifTool = False\<rparr>"

definition demoEnv :: env where
  "demoEnv =
     \<lparr>ctx = (\<lambda>n. None), rangeOrder = (\<lambda>n ks. ks),
      ReadMetadata = (\<lambda>i n. Inr 0), NewExifTool = Inr ()\<rparr>"

definition demoFS :: "node list \<Rightarrow> FS" where
  "demoFS ns =
     \<lparr>fsid = 0, fsName = Some ''Lib'', fsRoot = Inr (DirNode ''.'' None ns),
      fsStat = (\<lambda>n. Inr 1)\<rparr>"

definition demoState :: "ImportFlags \<Rightarrow> FS list \<Rightarrow> state" where
  "demoState fl fs =
     startScan \<lparr>fsyss = fs, albums = [], catalogs = Map.empty, log = [], flags = fl,
                exiftool = None\<rparr>"

definition demoAsset :: "string \<Rightarrow> LocalAssetFile" where
  "demoAsset name =
     \<lparr>FileName = name, Title = Base name, FSys = 0, FileSize = 1, DateTaken = 0\<rparr>"

definition demoFailFS :: "string \<Rightarrow> node list \<Rightarrow> FS" where
  "demoFailFS bad ns =
     \<lparr>fsid = 0, fsName = Some ''Lib'', fsRoot = Inr (DirNode ''.'' None ns),
      fsStat = (\<lambda>n. if n = bad then Inl (ErrExt ''stat failed'') else Inr 1)\<rparr>"

definition demoLinked :: fileLinks where
  "demoLinked = \<lparr>image' = ''clip.jpg'', video = ''clip.MP4'', sidecar = []\<rparr>"

definition demoRangeFlags :: ImportFlags where
  "demoRangeFlags = demoFlags\<lparr>DateRangeIsSet := True, DateRangeInRange := (\<lambda>d. 10 \<le> d)\<rparr>"

definition demoDates :: "nat \<Rightarrow> string \<Rightarrow> error + int" where
  "demoDates i n = (if n = ''clip.MP4'' then Inr 0 else Inr 20)"

definition demoBanFlags :: ImportFlags where
  "demoBanFlags = demoFlags\<lparr>BannedFiles := (\<lambda>n. n = ''thumb.jpg'')\<rparr>"

definition demoBanFS :: FS where
  "demoBanFS = demoFS [FileNode ''a.jpg'', FileNode ''thumb.jpg'']"

definition demoBanBrowser :: LocalAssetBrowser where
  "demoBanBrowser =
     \<lparr>fsyss = [demoBanFS], albums = [], catalogs = Map.empty, log = [],
      flags = demoBanFlags, exiftool = None\<rparr>"

definition demoAbortFS :: FS where
  "demoAbortFS = demoFailFS ''a.jpg'' [FileNode ''a.jpg'', FileNode ''b.jpg'']"

definition demoAfterPassOne :: state where
  "demoAfterPassOne = snd (passOneAll demoEnv [demoAbortFS] (demoState demoFlags [demoAbortFS]))"

definition demoTieFS :: FS where
  "demoTieFS = demoFS [FileNode ''a.jpg'', FileNode ''a.png'', FileNode ''a.xmp'']"

definition demoAbortLinks :: links where
  "demoAbortLinks =
     [(''a.jpg'', \<lparr>image' = ''a.jpg'', video = [], sidecar = []\<rparr>),
      (''b.jpg'', \<lparr>image' = ''b.jpg'', video = [], sidecar = []\<rparr>)]"

definition demoScanFS1 :: FS where
  "demoScanFS1 =
     \<lparr>fsid = 1, fsName = Some ''One'',
      fsRoot = Inr (DirNode ''.'' None [FileNode ''x.jpg'']),
      fsStat = (\<lambda>n. Inr 1)\<rparr>"

definition demoScanFS2 :: FS where
  "demoScanFS2 =
     \<lparr>fsid = 2, fsName = Some ''Two'',
      fsRoot = Inr (DirNode ''.'' None
                 [FileNode ''a.jpg'',
                  DirNode ''sub'' None [FileNode ''c.jpg'', FileNode ''d.jpg''],
                  DirNode ''zz'' None [FileNode ''e.jpg'']]),
      fsStat = (\<lambda>n. if n = ''sub/d.jpg'' then Inl (ErrExt ''stat failed'') else Inr 1)\<rparr>"

definition demoScanFS3 :: FS where
  "demoScanFS3 =
     \<lparr>fsid = 3, fsName = Some ''Three'',
      fsRoot = Inr (DirNode ''.'' None [FileNode ''y.jpg'']),
      fsStat = (\<lambda>n. Inr 1)\<rparr>"

definition demoScanStart :: state where
  "demoScanStart = demoState demoFlags [demoScanFS1, demoScanFS2, demoScanFS3]"

definition demoScanS :: state where
  "demoScanS = snd (passOneAll demoEnv (fsyss demoScanStart) demoScanStart)"

definition demoScanSa :: state where
  "demoScanSa = snd (fsysLoop demoEnv [demoScanFS1] demoScanS)"

definition demoScanSb :: state where
  "demoScanSb = snd (dirsLoop demoEnv demoScanFS2 [''.''] demoScanSa)"

definition demoScanLinks :: links where
  "demoScanLinks = fst (buildLinks demoEnv (bucket demoScanSb demoScanFS2 ''sub'') demoScanSb)"

definition demoScanSc :: state where
  "demoScanSc = snd (buildLinks demoEnv (bucket demoScanSb demoScanFS2 ''sub'') demoScanSb)"

definition demoScanSd :: state where
  "demoScanSd = snd (resolveLoop demoEnv demoScanFS2 demoScanLinks [''sub/c.jpg''] demoScanSc)"

definition demoNamedFS :: "string \<Rightarrow> FS" where
  "demoNamedFS n =
     \<lparr>fsid = 0, fsName = Some n, fsRoot = Inr (DirNode ''.'' None [FileNode ''c.jpg'']),
      fsStat = (\<lambda>f. Inr 1)\<rparr>"

definition demoImageEntry :: "string \<Rightarrow> fileLinks" where
  "demoImageEntry name = \<lparr>image' = name, video = [], sidecar = []\<rparr>"

section \<open>Invariants of a scan\<close>

text \<open>
  Predicates used to follow the names of files through a scan: every name in a
  bucket, every field of a link entry that is set, and every name in a group pushed
  on the channel is a name the banned-name matcher does not match.
\<close>

definition catalogsClean :: "ImportFlags \<Rightarrow> (nat \<Rightarrow> catalog option) \<Rightarrow> bool" where
  "catalogsClean fl cs \<longleftrightarrow>
     (\<forall>i c d fs f. cs i = Some c \<longrightarrow> (d, fs) \<in> set c \<longrightarrow> f \<in> set fs \<longrightarrow> \<not> BannedFiles fl f)"

definition fieldClean :: "ImportFlags \<Rightarrow> string \<Rightarrow> bool" where
  "fieldClean fl n \<longleftrightarrow> n = [] \<or> \<not> BannedFiles fl n"

definition linkedClean :: "ImportFlags \<Rightarrow> fileLinks \<Rightarrow> bool" where
  "linkedClean fl l \<longleftrightarrow>
     fieldClean fl (image' l) \<and> fieldClean fl (video l) \<and> fieldClean fl (sidecar l)"

definition linksClean :: "ImportFlags \<Rightarrow> links \<Rightarrow> bool" where
  "linksClean fl ls \<longleftrightarrow> (\<forall>k l. (k, l) \<in> set ls \<longrightarrow> linkedClean fl l)"

definition groupClean :: "ImportFlags \<Rightarrow> AssetGroup \<Rightarrow> bool" where
  "groupClean fl g \<longleftrightarrow>
     (\<forall>a \<in> set (Assets g). \<not> BannedFiles fl (FileName a)) \<and>
     (\<forall>sc. SideCar g = Some sc \<longrightarrow> \<not> BannedFiles fl (snd sc))"

definition scanInv :: "ImportFlags \<Rightarrow> state \<Rightarrow> bool" where
  "scanInv fl s \<longleftrightarrow>
     flags s = fl \<and> catalogsClean fl (catalogs s) \<and> (\<forall>g \<in> set (fileChan s). groupClean fl g)"

section \<open>Properties\<close>

subsection \<open>Effects on the fields of the state\<close>

lemma Record_simps:
  "log (Record c fsys name args s) = log s @ [(c, fsid fsys, name, args)]"
  "catalogs (Record c fsys name args s) = catalogs s"
  "flags (Record c fsys name args s) = flags s"
  "fileChan (Record c fsys name args s) = fileChan s"
  "polls (Record c fsys name args s) = polls s"
  "closed (Record c fsys name args s) = closed s"
  by (simp_all add: Record_def)

lemma Close_simps:
  "log (Close fsys name s) = log s"
  "catalogs (Close fsys name s) = catalogs s"
  "flags (Close fsys name s) = flags s"
  "fileChan (Close fsys name s) = fileChan s"
  "polls (Close fsys name s) = polls s"
  "closed (Close fsys name s) = closed s @ [(fsid fsys, name)]"
  by (simp_all add: Close_def)

subsection \<open>Construction\<close>

text \<open>
  C7: constructing the browser with both a fixed import-into-album override and an
  album mode other than None fails with an error, and nothing is scanned (the result
  is the error alone). With at most one of the two set, and the external tool either
  not requested or started without error, construction succeeds and gives a browser
  with empty catalogs and the recorder untouched.
\<close>

theorem NewLocalFiles_album_conflict:
  "(ImportIntoAlbum fl \<noteq> [] \<and> UsePathAsAlbumName fl \<noteq> FolderModeNone \<longrightarrow>
      NewLocalFiles e l fl fs =
        Inl (ErrNew ''cannot use both --into-album and --folder-as-album''))
   \<and> ((ImportIntoAlbum fl = [] \<or> UsePathAsAlbumName fl = FolderModeNone) \<and>
        (UseExifTool fl \<longrightarrow> NewExifTool e = Inr et) \<longrightarrow>
      NewLocalFiles e l fl fs =
        Inr \<lparr>fsyss = fs, albums = [], catalogs = Map.empty, log = l, flags = fl,
             exiftool = (if UseExifTool fl then Some et else None)\<rparr>)"
  by (auto simp: NewLocalFiles_def Let_def)

theorem NewLocalFiles_album_conflict_witness:
  "NewLocalFiles demoEnv []
      (demoFlags\<lparr>ImportIntoAlbum := ''Trip'', UsePathAsAlbumName := FolderModePath\<rparr>) []
     = Inl (ErrNew ''cannot use both --into-album and --folder-as-album'')
   \<and> NewLocalFiles demoEnv [] (demoFlags\<lparr>ImportIntoAlbum := ''Trip''\<rparr>) []
     = Inr \<lparr>fsyss = [], albums = [], catalogs = Map.empty, log = [],
            flags = demoFlags\<lparr>ImportIntoAlbum := ''Trip''\<rparr>, exiftool = None\<rparr>
   \<and> NewLocalFiles demoEnv [] (demoFlags\<lparr>UsePathAsAlbumName := FolderModePath\<rparr>) []
     = Inr \<lparr>fsyss = [], albums = [], catalogs = Map.empty, log = [],
            flags = demoFlags\<lparr>UsePathAsAlbumName := FolderModePath\<rparr>, exiftool = None\<rparr>"
  using NewLocalFiles_album_conflict
          [where fl = "demoFlags\<lparr>ImportIntoAlbum := ''Trip'', UsePathAsAlbumName := FolderModePath\<rparr>"
             and e = demoEnv and l = "[]" and fs = "[]" and et = "()"]
        NewLocalFiles_album_conflict
          [where fl = "demoFlags\<lparr>ImportIntoAlbum := ''Trip''\<rparr>"
             and e = demoEnv and l = "[]" and fs = "[]" and et = "()"]
        NewLocalFiles_album_conflict
          [where fl = "demoFlags\<lparr>UsePathAsAlbumName := FolderModePath\<rparr>"
             and e = demoEnv and l = "[]" and fs = "[]" and et = "()"]
  by (simp add: demoFlags_def)

subsection \<open>The asset materializer\<close>

text \<open>
  C6: when the metadata read and the stat of a file succeed and a date range is
  configured that the derived date is outside of, the materializer releases the
  handle, records a discard event with reason "asset outside date range", and returns
  no handle and no error.
\<close>

theorem assetFromFile_outside_date_range:
  assumes "ReadMetadata e (fsid fsys) name = Inr date"
      and "fsStat fsys name = Inr sz"
      and "DateRangeIsSet (flags s)"
      and "\<not> DateRangeInRange (flags s) date"
  shows "assetFromFile e fsys name s =
           ((None, None),
            s\<lparr>closed := closed s @ [(fsid fsys, name)],
              log := log s @ [(DiscoveredDiscarded, fsid fsys, name,
                               [(''reason'', ''asset outside date range'')])]\<rparr>)"
  using assms by (simp add: assetFromFile_def Record_def Close_def)

theorem assetFromFile_outside_date_range_witness:
  "fst (assetFromFile demoEnv (demoFS [])  ''old.jpg''
      (demoState (demoFlags\<lparr>DateRangeIsSet := True, DateRangeInRange := (\<lambda>d. 10 \<le> d)\<rparr>) []))
    = (None, None)
   \<and> closed (snd (assetFromFile demoEnv (demoFS [])  ''old.jpg''
      (demoState (demoFlags\<lparr>DateRangeIsSet := True, DateRangeInRange := (\<lambda>d. 10 \<le> d)\<rparr>) [])))
    = [(0, ''old.jpg'')]
   \<and> log (snd (assetFromFile demoEnv (demoFS [])  ''old.jpg''
      (demoState (demoFlags\<lparr>DateRangeIsSet := True, DateRangeInRange := (\<lambda>d. 10 \<le> d)\<rparr>) [])))
    = [(DiscoveredDiscarded, 0, ''old.jpg'', [(''reason'', ''asset outside date range'')])]"
  using assetFromFile_outside_date_range
          [where e = demoEnv and fsys = "demoFS []" and name = "''old.jpg''" and date = 0
             and sz = 1
             and s = "demoState (demoFlags\<lparr>DateRangeIsSet := True, DateRangeInRange := (\<lambda>d. 10 \<le> d)\<rparr>) []"]
  by (simp add: demoEnv_def demoFS_def demoState_def demoFlags_def startScan_def)

subsection \<open>Pass one: ignored sidecars\<close>

text \<open>
  C4 as stated fails: with sidecar-ignoring configured, the callback on the sidecar
  \<open>a.xmp\<close> records no discard event whose reason is "sidecar ignored".
\<close>

theorem sidecar_ignored_reason_counterexample:
  "SupportedMedia (flags (demoState (demoFlags\<lparr>IgnoreSideCarFiles := True\<rparr>) []))
       (Ext (snd (Split ''a.xmp''))) = TypeSidecar
   \<and> IgnoreSideCarFiles (flags (demoState (demoFlags\<lparr>IgnoreSideCarFiles := True\<rparr>) []))
   \<and> (DiscoveredDiscarded, 0, ''a.xmp'', [(''reason'', ''sidecar ignored'')])
       \<notin> set (log (snd (walkFn demoEnv (demoFS [FileNode ''a.xmp'']) ''a.xmp'' False None
                          (demoState (demoFlags\<lparr>IgnoreSideCarFiles := True\<rparr>) []))))"
  by code_simp

text \<open>
  C4, amended: in pass one, for every file that reaches classification (the context is
  live and the name is not banned) and is classified as sidecar while sidecar-ignoring
  is configured, the callback records the discovery of the sidecar and then a discard
  event whose reason is exactly "sidecar file ignored", returns no error, and leaves
  every candidate bucket as it was.
\<close>

theorem sidecar_file_ignored:
  assumes "ctx e (polls s) = None"
      and "\<not> BannedFiles (flags s) name"
      and "SupportedMedia (flags s) (Ext (snd (Split name))) = TypeSidecar"
      and "IgnoreSideCarFiles (flags s)"
  shows "walkFn e fsys name False None s =
           (None,
            s\<lparr>polls := Suc (polls s),
              log := log s @ [(DiscoveredSidecar, fsid fsys, name, []),
                              (DiscoveredDiscarded, fsid fsys, name,
                               [(''reason'', ''sidecar file ignored'')])]\<rparr>)
         \<and> catalogs (snd (walkFn e fsys name False None s)) = catalogs s"
  using assms by (simp add: walkFn_def poll_def walkFile_def Let_def Record_def)

theorem sidecar_file_ignored_witness:
  "log (snd (walkFn demoEnv (demoFS [FileNode ''a.xmp'']) ''a.xmp'' False None
              (demoState (demoFlags\<lparr>IgnoreSideCarFiles := True\<rparr>) [])))
     = [(DiscoveredSidecar, 0, ''a.xmp'', []),
        (DiscoveredDiscarded, 0, ''a.xmp'', [(''reason'', ''sidecar file ignored'')])]
   \<and> catalogs (snd (walkFn demoEnv (demoFS [FileNode ''a.xmp'']) ''a.xmp'' False None
              (demoState (demoFlags\<lparr>IgnoreSideCarFiles := True\<rparr>) []))) = Map.empty"
proof -
  have media: "demoMedia (Ext (snd (Split ''a.xmp''))) = TypeSidecar"
    by code_simp
  show ?thesis
    using sidecar_file_ignored
            [where e = demoEnv and fsys = "demoFS [FileNode ''a.xmp'']" and name = "''a.xmp''"
               and s = "demoState (demoFlags\<lparr>IgnoreSideCarFiles := True\<rparr>) []"]
          media
    by (simp add: demoEnv_def demoFS_def demoState_def demoFlags_def startScan_def)
qed

subsection \<open>Pass two: a video whose base is a key of the link map\<close>

text \<open>
  The first test of the video case stores the video in the \<open>sidecar\<close> field of the
  entry keyed by the video's base; the \<open>video\<close> field is left as it was.
\<close>

lemma linkFile_video_exact_key:
  assumes "SupportedMedia (flags s) (Ext file) = TypeVideo"
      and "map_of ls (TrimSuffix file (Ext file)) = Some img"
  shows "linkFile e file (ls, s) =
           (AList.update (TrimSuffix file (Ext file)) (img\<lparr>sidecar := file\<rparr>) ls, s)"
  using assms by (simp add: linkFile_def Let_def)

text \<open>
  C1, the code at the directory \<open>clip.jpg\<close>, \<open>clip.jpg.MP4\<close>: the base of the video,
  \<open>clip.jpg\<close>, is a key of the link map, and the video ends in the \<open>sidecar\<close> field of
  that entry, not in its \<open>video\<close> field; the scan emits one group of kind None
  whose sidecar is the video, where the claim has the video attached as the companion
  video.
\<close>

theorem video_on_exact_key_becomes_sidecar:
  "fst (buildLinks demoEnv [''clip.jpg'', ''clip.jpg.MP4''] (demoState demoFlags []))
     = [(''clip.jpg'', \<lparr>image' = ''clip.jpg'', video = [], sidecar = ''clip.jpg.MP4''\<rparr>)]
   \<and> fileChan (snd (Browse demoEnv
        (demoState demoFlags [demoFS [FileNode ''clip.jpg'', FileNode ''clip.jpg.MP4'']])))
     = [\<lparr>Kind = GroupKindNone,
         Assets = [\<lparr>FileName = ''clip.jpg'', Title = ''clip.jpg'', FSys = 0,
                    FileSize = 1, DateTaken = 0\<rparr>],
         CoverIndex = 0, SideCar = Some (0, ''clip.jpg.MP4''), Albums = []\<rparr>]"
  by code_simp

subsection \<open>Album naming\<close>

lemma Dir_no_slash: "CHR ''/'' \<notin> set r \<Longrightarrow> Dir r = ''.''"
proof -
  assume "CHR ''/'' \<notin> set r"
  then have "dropWhile (\<lambda>c. c \<noteq> CHR ''/'') (rev r) = []"
    by (auto simp: dropWhile_eq_Nil_conv)
  then show ?thesis by (simp add: Dir_def Split_def Clean_def)
qed

lemma Base_dot: "Base ''.'' = ''.''"
  by code_simp

lemma Dir_abc: "Dir ''a/b/c.jpg'' = ''a/b''"
  by code_simp

lemma Base_ab: "Base ''a/b'' = ''b''"
  by code_simp

lemma split_ab: "splitOn (CHR ''/'') ''a/b'' = [''a'', ''b'']"
  by code_simp

text \<open>The titles the album block appends, on the paths of interest.\<close>

lemma manageAlbums_titles:
  assumes "CHR ''/'' \<notin> set r" and "ImportIntoAlbum fl = []"
  shows "(UsePathAsAlbumName fl = FolderModePath \<and> AlbumNamePathSeparator fl = ''#'' \<and>
          fsName fsys = Some ''Lib'' \<and> FileName a = ''a/b/c.jpg'' \<longrightarrow>
            map AlbumTitle (Albums (manageAlbums fl fsys a g))
              = map AlbumTitle (Albums g) @ [''Lib#a#b''])
       \<and> (UsePathAsAlbumName fl = FolderModeFolder \<and> FileName a = ''a/b/c.jpg'' \<longrightarrow>
            map AlbumTitle (Albums (manageAlbums fl fsys a g))
              = map AlbumTitle (Albums g) @ [''b''])
       \<and> (UsePathAsAlbumName fl = FolderModeFolder \<and> fsName fsys = Some n \<and> n \<noteq> [] \<and>
          FileName a = r \<longrightarrow>
            map AlbumTitle (Albums (manageAlbums fl fsys a g))
              = map AlbumTitle (Albums g) @ [n])
       \<and> (UsePathAsAlbumName fl = FolderModePath \<and> fsName fsys = Some n \<and> FileName a = r \<longrightarrow>
            map AlbumTitle (Albums (manageAlbums fl fsys a g))
              = map AlbumTitle (Albums g) @ [n])"
  using assms
  by (simp add: manageAlbums_def Let_def Dir_no_slash Base_dot Dir_abc Base_ab split_ab)

subsection \<open>Pass two: resolution of a link entry\<close>


lemma assetFromFile_keeps:
  assumes "assetFromFile e fsys name s = (r, s')"
  shows "polls s' = polls s" and "fileChan s' = fileChan s" and "flags s' = flags s"
    and "catalogs s' = catalogs s"
  using assms
  by (auto simp: assetFromFile_def Record_def Close_def split: sum.splits if_splits)

lemma errFn_keeps:
  "polls (errFn fsys name err s) = polls s"
  "fileChan (errFn fsys name err s) = fileChan s"
  "flags (errFn fsys name err s) = flags s"
  "catalogs (errFn fsys name err s) = catalogs s"
  by (simp_all add: errFn_def Record_def split: option.splits)

lemma manageAlbums_keeps:
  "Kind (manageAlbums fl fsys a g) = Kind g"
  "Assets (manageAlbums fl fsys a g) = Assets g"
  "SideCar (manageAlbums fl fsys a g) = SideCar g"
  by (simp_all add: manageAlbums_def Let_def split: folderMode.splits)

text \<open>A group that was built is pushed when the context is live.\<close>

lemma processLinked_built:
  assumes "buildGroup e fsys linked s = (Built a g, s1)"
      and "ctx e (polls s1) = None"
  shows "\<exists>g' s'. processLinked e fsys linked s = (Next, s') \<and>
                  fileChan s' = fileChan s1 @ [g'] \<and> Kind g' = Kind g \<and> Assets g' = Assets g \<and>
                  log s' = log s1 @ (if sidecar linked \<noteq> []
                                     then [(AnalysisAssociatedMetadata, fsid fsys, FileName a,
                                            [(''sidecar'', sidecar linked)])]
                                     else [])"
  using assms
  by (simp add: processLinked_def attachSideCar_def emit_def poll_def Record_def
        manageAlbums_keeps)

text \<open>
  C5: for a link entry with both image and video whose image materializes, the context
  being live: if the materialization of the video fails with a hard error, an error
  event is recorded for the video and the group pushed has kind None and holds the
  image handle alone; if the video materializes, the group pushed has kind MotionPhoto
  and holds the handles image, video in this order.
\<close>

theorem companion_video_resolution:
  assumes "image' linked \<noteq> []" and "video linked \<noteq> []"
      and "assetFromFile e fsys (image' linked) s = ((Some a, None), s1)"
      and "ctx e (polls s) = None"
  shows "(\<forall>err s2. assetFromFile e fsys (video linked) s1 = ((None, Some err), s2) \<longrightarrow>
            (\<exists>g s'. processLinked e fsys linked s = (Next, s') \<and>
                     fileChan s' = fileChan s @ [g] \<and>
                     Kind g = GroupKindNone \<and> Assets g = [a] \<and>
                     log s' = log s2 @ [(Error, fsid fsys, video linked,
                                           [(''error'', errorString err)])]
                                      @ (if sidecar linked \<noteq> []
                                    then [(AnalysisAssociatedMetadata, fsid fsys, FileName a,
                                           [(''sidecar'', sidecar linked)])]
                                    else [])))
       \<and> (\<forall>i err s2. assetFromFile e fsys (video linked) s1 = ((Some i, err), s2) \<longrightarrow>
            (\<exists>g s'. processLinked e fsys linked s = (Next, s') \<and>
                     fileChan s' = fileChan s @ [g] \<and>
                     Kind g = GroupKindMotionPhoto \<and> Assets g = [a, i]))"
proof (intro conjI allI impI)
  fix err s2
  assume v: "assetFromFile e fsys (video linked) s1 = ((None, Some err), s2)"
  let ?s3 = "errFn fsys (video linked) (Some err) s2"
  have b: "buildGroup e fsys linked s = (Built a (newGroup GroupKindNone [a]), ?s3)"
    using assms v by (simp add: buildGroup_def)
  have p: "polls ?s3 = polls s" and f: "fileChan ?s3 = fileChan s"
    using assetFromFile_keeps [OF assms(3)] assetFromFile_keeps [OF v]
    by (simp_all add: errFn_keeps)
  have l: "log ?s3 = log s2 @ [(Error, fsid fsys, video linked, [(''error'', errorString err)])]"
    by (simp add: errFn_def Record_def)
  from processLinked_built [OF b] assms(4) p f l
  show "\<exists>g s'. processLinked e fsys linked s = (Next, s') \<and>
                fileChan s' = fileChan s @ [g] \<and>
                Kind g = GroupKindNone \<and> Assets g = [a] \<and>
                log s' = log s2 @ [(Error, fsid fsys, video linked,
                                      [(''error'', errorString err)])]
                                 @ (if sidecar linked \<noteq> []
                                    then [(AnalysisAssociatedMetadata, fsid fsys, FileName a,
                                           [(''sidecar'', sidecar linked)])]
                                    else [])"
    by (auto simp: newGroup_def)
next
  fix i err s2
  assume v: "assetFromFile e fsys (video linked) s1 = ((Some i, err), s2)"
  have b: "buildGroup e fsys linked s = (Built a (newGroup GroupKindMotionPhoto [a, i]), s2)"
    using assms v by (simp add: buildGroup_def)
  have p: "polls s2 = polls s" and f: "fileChan s2 = fileChan s"
    using assetFromFile_keeps [OF assms(3)] assetFromFile_keeps [OF v]
    by simp_all
  from processLinked_built [OF b] assms(4) p f
  show "\<exists>g s'. processLinked e fsys linked s = (Next, s') \<and>
                fileChan s' = fileChan s @ [g] \<and>
                Kind g = GroupKindMotionPhoto \<and> Assets g = [a, i]"
    by (auto simp: newGroup_def)
qed

theorem companion_video_resolution_witness:
  "fst (processLinked demoEnv (demoFailFS ''clip.MP4'' []) demoLinked (demoState demoFlags []))
     = Next
   \<and> map Kind (fileChan (snd (processLinked demoEnv (demoFailFS ''clip.MP4'' []) demoLinked
                                 (demoState demoFlags []))))
     = [GroupKindNone]
   \<and> map Assets (fileChan (snd (processLinked demoEnv (demoFailFS ''clip.MP4'' []) demoLinked
                                   (demoState demoFlags []))))
     = [[demoAsset ''clip.jpg'']]
   \<and> log (snd (processLinked demoEnv (demoFailFS ''clip.MP4'' []) demoLinked
                  (demoState demoFlags [])))
     = [(Error, 0, ''clip.MP4'', [(''error'', ''stat failed'')])]
   \<and> map Kind (fileChan (snd (processLinked demoEnv (demoFS []) demoLinked
                                 (demoState demoFlags []))))
     = [GroupKindMotionPhoto]
   \<and> map Assets (fileChan (snd (processLinked demoEnv (demoFS []) demoLinked
                                   (demoState demoFlags []))))
     = [[demoAsset ''clip.jpg'', demoAsset ''clip.MP4'']]"
proof -
  let ?s = "demoState demoFlags []"
  let ?bad = "demoFailFS ''clip.MP4'' []"
  have i1: "image' demoLinked \<noteq> []" and i2: "video demoLinked \<noteq> []"
    by (simp_all add: demoLinked_def)
  have c: "ctx demoEnv (polls ?s) = None"
    by (simp add: demoEnv_def)
  have a1: "assetFromFile demoEnv ?bad (image' demoLinked) ?s
              = ((Some (demoAsset ''clip.jpg''), None), ?s)"
    by (simp add: assetFromFile_def demoEnv_def demoFailFS_def demoLinked_def demoState_def
          demoFlags_def startScan_def demoAsset_def)
  have v1: "assetFromFile demoEnv ?bad (video demoLinked) ?s
              = ((None, Some (ErrExt ''stat failed'')), Close ?bad ''clip.MP4'' ?s)"
    by (simp add: assetFromFile_def demoEnv_def demoFailFS_def demoLinked_def)
  have a2: "assetFromFile demoEnv (demoFS []) (image' demoLinked) ?s
              = ((Some (demoAsset ''clip.jpg''), None), ?s)"
    by (simp add: assetFromFile_def demoEnv_def demoFS_def demoLinked_def demoState_def
          demoFlags_def startScan_def demoAsset_def)
  have v2: "assetFromFile demoEnv (demoFS []) (video demoLinked) ?s
              = ((Some (demoAsset ''clip.MP4''), None), ?s)"
    by (simp add: assetFromFile_def demoEnv_def demoFS_def demoLinked_def demoState_def
          demoFlags_def startScan_def demoAsset_def)
  have l0: "log (Close ?bad ''clip.MP4'' ?s) = []" and f0: "fileChan ?s = []"
    by (simp_all add: Close_def demoState_def startScan_def)
  have id0: "fsid ?bad = 0" "video demoLinked = ''clip.MP4''" "sidecar demoLinked = []"
    by (simp_all add: demoFailFS_def demoLinked_def)
  from companion_video_resolution [OF i1 i2 a1 c] v1
  obtain g s' where
    "processLinked demoEnv ?bad demoLinked ?s = (Next, s')"
    "fileChan s' = fileChan ?s @ [g]" "Kind g = GroupKindNone"
    "Assets g = [demoAsset ''clip.jpg'']"
    "log s' = log (Close ?bad ''clip.MP4'' ?s)
                @ [(Error, fsid ?bad, video demoLinked,
                    [(''error'', errorString (ErrExt ''stat failed''))])]
                @ (if sidecar demoLinked \<noteq> []
                   then [(AnalysisAssociatedMetadata, fsid ?bad,
                          FileName (demoAsset ''clip.jpg''), [(''sidecar'', sidecar demoLinked)])]
                   else [])"
    by blast
  then have first:
    "fst (processLinked demoEnv ?bad demoLinked ?s) = Next"
    "map Kind (fileChan (snd (processLinked demoEnv ?bad demoLinked ?s))) = [GroupKindNone]"
    "map Assets (fileChan (snd (processLinked demoEnv ?bad demoLinked ?s)))
       = [[demoAsset ''clip.jpg'']]"
    "log (snd (processLinked demoEnv ?bad demoLinked ?s))
       = [(Error, 0, ''clip.MP4'', [(''error'', ''stat failed'')])]"
    using l0 f0 id0 by simp_all
  from companion_video_resolution [OF i1 i2 a2 c] v2
  obtain g2 s2 where
    "processLinked demoEnv (demoFS []) demoLinked ?s = (Next, s2)"
    "fileChan s2 = fileChan ?s @ [g2]" "Kind g2 = GroupKindMotionPhoto"
    "Assets g2 = [demoAsset ''clip.jpg'', demoAsset ''clip.MP4'']"
    by blast
  then have second:
    "map Kind (fileChan (snd (processLinked demoEnv (demoFS []) demoLinked ?s)))
       = [GroupKindMotionPhoto]"
    "map Assets (fileChan (snd (processLinked demoEnv (demoFS []) demoLinked ?s)))
       = [[demoAsset ''clip.jpg'', demoAsset ''clip.MP4'']]"
    using f0 by simp_all
  from first second show ?thesis by simp
qed

text \<open>
  C10: for a link entry with both image and video whose image materializes, the
  context being live: when the metadata read and the stat of the video succeed and its
  date is outside the configured range, the group pushed has kind None and holds the
  image handle alone, and the log grows by the materializer's discard event with reason
  "asset outside date range" (followed by the sidecar association when the entry has a
  sidecar); no error event is recorded for the video.
\<close>

theorem soft_excluded_video_degrades_silently:
  assumes "image' linked \<noteq> []" and "video linked \<noteq> []"
      and "assetFromFile e fsys (image' linked) s = ((Some a, None), s1)"
      and "ctx e (polls s) = None"
      and "ReadMetadata e (fsid fsys) (video linked) = Inr date"
      and "fsStat fsys (video linked) = Inr sz"
      and "DateRangeIsSet (flags s)"
      and "\<not> DateRangeInRange (flags s) date"
  shows "\<exists>g s'. processLinked e fsys linked s = (Next, s') \<and>
                fileChan s' = fileChan s @ [g] \<and>
                Kind g = GroupKindNone \<and> Assets g = [a] \<and>
                log s' = log s1 @ [(DiscoveredDiscarded, fsid fsys, video linked,
                                      [(''reason'', ''asset outside date range'')])]
                                 @ (if sidecar linked \<noteq> []
                                    then [(AnalysisAssociatedMetadata, fsid fsys, FileName a,
                                           [(''sidecar'', sidecar linked)])]
                                    else [])"
proof -
  let ?s2 = "s1\<lparr>closed := closed s1 @ [(fsid fsys, video linked)],
               log := log s1 @ [(DiscoveredDiscarded, fsid fsys, video linked,
                                 [(''reason'', ''asset outside date range'')])]\<rparr>"
  have k: "polls s1 = polls s" "fileChan s1 = fileChan s" "flags s1 = flags s"
    using assetFromFile_keeps [OF assms(3)] by simp_all
  have v: "assetFromFile e fsys (video linked) s1 = ((None, None), ?s2)"
    using assms(5-8) k
    by (simp add: assetFromFile_def Record_def Close_def)
  have b: "buildGroup e fsys linked s = (Built a (newGroup GroupKindNone [a]), ?s2)"
    using assms(1-3) v by (simp add: buildGroup_def errFn_def)
  from processLinked_built [OF b] assms(4) k
  show ?thesis by (auto simp: newGroup_def)
qed

theorem soft_excluded_video_degrades_silently_witness:
  "fst (processLinked (demoEnv\<lparr>ReadMetadata := demoDates\<rparr>) (demoFS []) demoLinked
          (demoState demoRangeFlags [])) = Next
   \<and> map Kind (fileChan (snd (processLinked (demoEnv\<lparr>ReadMetadata := demoDates\<rparr>) (demoFS [])
                                 demoLinked (demoState demoRangeFlags []))))
     = [GroupKindNone]
   \<and> map Assets (fileChan (snd (processLinked (demoEnv\<lparr>ReadMetadata := demoDates\<rparr>) (demoFS [])
                                   demoLinked (demoState demoRangeFlags []))))
     = [[(demoAsset ''clip.jpg'')\<lparr>DateTaken := 20\<rparr>]]
   \<and> log (snd (processLinked (demoEnv\<lparr>ReadMetadata := demoDates\<rparr>) (demoFS []) demoLinked
                  (demoState demoRangeFlags [])))
     = [(DiscoveredDiscarded, 0, ''clip.MP4'', [(''reason'', ''asset outside date range'')])]"
proof -
  let ?e = "demoEnv\<lparr>ReadMetadata := demoDates\<rparr>"
  let ?s = "demoState demoRangeFlags []"
  have i1: "image' demoLinked \<noteq> []" and i2: "video demoLinked \<noteq> []"
    by (simp_all add: demoLinked_def)
  have c: "ctx ?e (polls ?s) = None"
    by (simp add: demoEnv_def)
  have a1: "assetFromFile ?e (demoFS []) (image' demoLinked) ?s
              = ((Some ((demoAsset ''clip.jpg'')\<lparr>DateTaken := 20\<rparr>), None), ?s)"
    by (simp add: assetFromFile_def demoEnv_def demoFS_def demoLinked_def demoState_def
          demoRangeFlags_def demoFlags_def startScan_def demoAsset_def demoDates_def)
  have m: "ReadMetadata ?e (fsid (demoFS [])) (video demoLinked) = Inr 0"
    by (simp add: demoDates_def demoLinked_def)
  have st: "fsStat (demoFS []) (video demoLinked) = Inr 1"
    by (simp add: demoFS_def)
  have r1: "DateRangeIsSet (flags ?s)" and r2: "\<not> DateRangeInRange (flags ?s) 0"
    by (simp_all add: demoState_def startScan_def demoRangeFlags_def)
  have l0: "log ?s = []" and f0: "fileChan ?s = []"
    by (simp_all add: demoState_def startScan_def)
  have id0: "fsid (demoFS []) = 0" "video demoLinked = ''clip.MP4''" "sidecar demoLinked = []"
    by (simp_all add: demoFS_def demoLinked_def)
  from soft_excluded_video_degrades_silently [OF i1 i2 a1 c m st r1 r2]
  obtain g s' where
    "processLinked ?e (demoFS []) demoLinked ?s = (Next, s')"
    "fileChan s' = fileChan ?s @ [g]" "Kind g = GroupKindNone"
    "Assets g = [(demoAsset ''clip.jpg'')\<lparr>DateTaken := 20\<rparr>]"
    "log s' = log ?s @ [(DiscoveredDiscarded, fsid (demoFS []), video demoLinked,
                          [(''reason'', ''asset outside date range'')])]
                @ (if sidecar demoLinked \<noteq> []
                   then [(AnalysisAssociatedMetadata, fsid (demoFS []),
                          FileName ((demoAsset ''clip.jpg'')\<lparr>DateTaken := 20\<rparr>),
                          [(''sidecar'', sidecar demoLinked)])]
                   else [])"
    by blast
  then show ?thesis
    using l0 f0 id0 by simp
qed

subsection \<open>Banned names never reach a group\<close>

lemma set_update_cases:
  "(d, w) \<in> set (AList.update k v al) \<Longrightarrow> (d, w) = (k, v) \<or> (d, w) \<in> set al"
  by (induction al) (auto split: if_splits)

lemma scanInv_Record: "scanInv fl s \<Longrightarrow> scanInv fl (Record c fsys name args s)"
  by (simp add: scanInv_def Record_def)

lemma scanInv_Close: "scanInv fl s \<Longrightarrow> scanInv fl (Close fsys name s)"
  by (simp add: scanInv_def Close_def)

lemma scanInv_polls: "scanInv fl s \<Longrightarrow> scanInv fl (s\<lparr>polls := n\<rparr>)"
  by (simp add: scanInv_def)

lemma scanInv_ranges: "scanInv fl s \<Longrightarrow> scanInv fl (s\<lparr>ranges := n\<rparr>)"
  by (simp add: scanInv_def)

lemma catalogOf_clean:
  assumes "catalogsClean fl (catalogs s)" and "(d, fs) \<in> set (catalogOf s fsys)" and "f \<in> set fs"
  shows "\<not> BannedFiles fl f"
proof (cases "catalogs s (fsid fsys)")
  case None
  with assms(2) show ?thesis by (simp add: catalogOf_def)
next
  case (Some c)
  with assms(2) have "(d, fs) \<in> set c" by (simp add: catalogOf_def)
  with assms(1,3) Some show ?thesis unfolding catalogsClean_def by blast
qed

lemma bucket_clean:
  assumes "catalogsClean fl (catalogs s)" and "f \<in> set (bucket s fsys dir)"
  shows "\<not> BannedFiles fl f"
proof (cases "map_of (catalogOf s fsys) dir")
  case None
  with assms(2) show ?thesis by (simp add: bucket_def)
next
  case (Some fs)
  then have "(dir, fs) \<in> set (catalogOf s fsys)" by (rule map_of_SomeD)
  moreover from Some assms(2) have "f \<in> set fs" by (simp add: bucket_def)
  ultimately show ?thesis using assms(1) by (rule catalogOf_clean [rotated])
qed

lemma scanInv_setBucket:
  assumes "scanInv fl s" and "\<forall>f \<in> set v. \<not> BannedFiles fl f"
  shows "scanInv fl (setBucket fsys dir v s)"
proof -
  have "catalogsClean fl ((catalogs s)(fsid fsys \<mapsto> AList.update dir v (catalogOf s fsys)))"
    unfolding catalogsClean_def
  proof (intro allI impI)
    fix i c d fs f
    assume c: "((catalogs s)(fsid fsys \<mapsto> AList.update dir v (catalogOf s fsys))) i = Some c"
      and m: "(d, fs) \<in> set c" and f: "f \<in> set fs"
    show "\<not> BannedFiles fl f"
    proof (cases "i = fsid fsys")
      case True
      with c m have "(d, fs) \<in> set (AList.update dir v (catalogOf s fsys))" by simp
      then have "(d, fs) = (dir, v) \<or> (d, fs) \<in> set (catalogOf s fsys)"
        by (rule set_update_cases)
      then show ?thesis
        using assms f catalogOf_clean [of fl s d fs fsys f] by (auto simp: scanInv_def)
    next
      case False
      with c have "catalogs s i = Some c" by simp
      with assms(1) m f show ?thesis by (auto simp: scanInv_def catalogsClean_def)
    qed
  qed
  with assms(1) show ?thesis by (simp add: scanInv_def setBucket_def)
qed

lemma scanInv_walkInclude:
  assumes "scanInv fl s" and "\<not> BannedFiles fl name" and "\<forall>f \<in> set cat. \<not> BannedFiles fl f"
  shows "scanInv fl (snd (walkInclude fsys name dir ext cat s))"
  using assms by (simp add: walkInclude_def scanInv_Record scanInv_setBucket)

lemma scanInv_walkFile:
  assumes "scanInv fl s"
  shows "scanInv fl (snd (walkFile fsys name s))"
proof (cases "BannedFiles (flags s) name")
  case True
  with assms show ?thesis by (simp add: walkFile_def scanInv_Record)
next
  case False
  from assms have fl: "flags s = fl" by (simp add: scanInv_def)
  from False fl have nb: "\<not> BannedFiles fl name" by simp
  have cat: "\<And>d. \<forall>f \<in> set (bucket s fsys d). \<not> BannedFiles fl f"
    using assms bucket_clean by (auto simp: scanInv_def)
  have inc: "\<And>s' d x. scanInv fl s' \<Longrightarrow>
      scanInv fl (snd (walkInclude fsys name d x (bucket s fsys d) s'))"
    using nb cat by (rule scanInv_walkInclude [rotated])
  show ?thesis
    using False assms inc
    by (simp add: walkFile_def Let_def scanInv_Record Record_simps(3)
          split: mediaType.splits)
qed

lemma scanInv_walkFn:
  assumes "scanInv fl s"
  shows "scanInv fl (snd (walkFn e fsys name isDir err s))"
  using assms
  by (auto simp: walkFn_def poll_def scanInv_setBucket scanInv_walkFile scanInv_polls
        split: option.splits)

lemma walk_invariant:
  shows "(\<forall>name isDir err s. I s \<longrightarrow> I (snd (fn name isDir err s))) \<Longrightarrow> I s \<Longrightarrow>
           I (snd (walkDir fn name d s))"
    and "(\<forall>name isDir err s. I s \<longrightarrow> I (snd (fn name isDir err s))) \<Longrightarrow> I s \<Longrightarrow>
           I (snd (walkEntries fn name ds s))"
proof (induction fn name d s and fn name ds s rule: walkDir_walkEntries.induct)
  case (1 fn name n s)
  then show ?case by simp
next
  case (2 fn name n rerr dirs s)
  from "2.prems" have step: "\<And>nm b er t r t'. I t \<Longrightarrow> fn nm b er t = (r, t') \<Longrightarrow> I t'"
    by (metis snd_conv)
  obtain r1 s1 where c1: "fn name True None s = (r1, s1)" by (cases "fn name True None s")
  then have i1: "I s1" using step "2.prems"(2) by blast
  show ?case
  proof (cases r1)
    case (Some err)
    with c1 i1 show ?thesis by simp
  next
    case None
    note r1 = this
    show ?thesis
    proof (cases rerr)
      case None
      with c1 r1 i1 "2.IH"(1) "2.prems"(1) show ?thesis by simp
    next
      case (Some re)
      obtain r2 s2 where c2: "fn name True (Some re) s1 = (r2, s2)"
        by (cases "fn name True (Some re) s1")
      then have i2: "I s2" using step i1 by blast
      show ?thesis
      proof (cases r2)
        case None
        with c1 r1 Some c2 i2 "2.IH"(2) "2.prems"(1) show ?thesis by simp
      next
        case (Some err2)
        with c1 r1 \<open>rerr = Some re\<close> c2 i2 show ?thesis by simp
      qed
    qed
  qed
next
  case (3 fn name s)
  then show ?case by simp
next
  case (4 fn name d1 ds s)
  obtain r1 s1 where c1: "walkDir fn (pathJoin name (nodeName d1)) d1 s = (r1, s1)"
    by (cases "walkDir fn (pathJoin name (nodeName d1)) d1 s")
  with "4.IH"(1) "4.prems" have i1: "I s1" by fastforce
  show ?case
  proof (cases r1)
    case None
    with c1 i1 "4.IH"(2) "4.prems"(1) show ?thesis by simp
  next
    case (Some err)
    with c1 i1 show ?thesis by simp
  qed
qed

lemma scanInv_WalkDir:
  assumes "\<forall>name isDir err s. I s \<longrightarrow> I (snd (fn name isDir err s))" and "I s"
  shows "I (snd (WalkDir fn root s))"
proof (cases root)
  case (Inl err)
  with assms show ?thesis by (simp add: WalkDir_def split: prod.splits) (metis snd_conv)
next
  case (Inr d)
  from walk_invariant(1) [OF assms] have "I (snd (walkDir fn ''.'' d s))" .
  with Inr show ?thesis by (simp add: WalkDir_def split: prod.splits) (metis snd_conv)
qed

lemma scanInv_reset:
  assumes "scanInv fl s"
  shows "scanInv fl (s\<lparr>catalogs := (catalogs s)(i \<mapsto> [])\<rparr>)"
  using assms by (auto simp: scanInv_def catalogsClean_def)

lemma scanInv_passOneFsWalk:
  assumes "scanInv fl s"
  shows "scanInv fl (snd (passOneFsWalk e fsys s))"
  unfolding passOneFsWalk_def
  by (rule scanInv_WalkDir) (simp_all add: scanInv_walkFn scanInv_reset assms)

lemma scanInv_passOneAll:
  "scanInv fl s \<Longrightarrow> scanInv fl (snd (passOneAll e fs s))"
proof (induction fs arbitrary: s)
  case Nil
  then show ?case by simp
next
  case (Cons fsys rest)
  obtain r s1 where c: "passOneFsWalk e fsys s = (r, s1)" by (cases "passOneFsWalk e fsys s")
  with scanInv_passOneFsWalk [OF Cons.prems, of e fsys] have "scanInv fl s1" by simp
  with c Cons.IH show ?case by (cases r) simp_all
qed


lemma linkedClean_zero: "linkedClean fl \<lparr>image' = [], video = [], sidecar = []\<rparr>"
  by (simp add: linkedClean_def fieldClean_def)

lemma linksAt_clean: "linksClean fl ls \<Longrightarrow> linkedClean fl (linksAt ls k)"
  by (auto simp: linksAt_def linksClean_def linkedClean_zero split: option.splits
        dest: map_of_SomeD)

lemma map_of_clean: "linksClean fl ls \<Longrightarrow> map_of ls k = Some l \<Longrightarrow> linkedClean fl l"
  by (auto simp: linksClean_def dest: map_of_SomeD)

lemma linksClean_update:
  assumes "linksClean fl ls" and "linkedClean fl l"
  shows "linksClean fl (AList.update k l ls)"
  using assms unfolding linksClean_def by (blast dest: set_update_cases)

lemma linkedClean_fields:
  assumes "linkedClean fl l" and "\<not> BannedFiles fl file"
  shows "linkedClean fl (l\<lparr>image' := file\<rparr>)"
    and "linkedClean fl (l\<lparr>video := file\<rparr>)"
    and "linkedClean fl (l\<lparr>sidecar := file\<rparr>)"
  using assms by (simp_all add: linkedClean_def fieldClean_def)

lemma linksClean_scanImages:
  "linksClean fl ls \<Longrightarrow> \<forall>f \<in> set files. \<not> BannedFiles fl f \<Longrightarrow>
     linksClean fl (scanImages fl' files ls)"
proof (induction files arbitrary: ls)
  case Nil
  then show ?case by simp
next
  case (Cons x xs)
  have "linksClean fl (AList.update x ((linksAt ls x)\<lparr>image' := x\<rparr>) ls)"
    using Cons.prems by (simp add: linksClean_update linkedClean_fields linksAt_clean)
  with Cons show ?case by simp
qed

lemma linksClean_rangeSidecar:
  assumes "linksClean fl ls" and "\<not> BannedFiles fl file"
  shows "rangeSidecar base file ls ks = Some ls' \<Longrightarrow> linksClean fl ls'"
proof (induction ks)
  case Nil
  then show ?case by simp
next
  case (Cons f fs)
  have up: "\<And>img. map_of ls f = Some img \<Longrightarrow>
              linksClean fl (AList.update f (img\<lparr>sidecar := file\<rparr>) ls) \<and>
              linksClean fl (AList.update f (img\<lparr>video := file\<rparr>) ls)"
    using assms by (simp add: linksClean_update linkedClean_fields map_of_clean)
  from Cons up show ?case
    by (auto split: if_splits option.splits)
qed

lemma linksClean_rangeVideo:
  assumes "linksClean fl ls" and "\<not> BannedFiles fl file"
  shows "rangeVideo base file ls ks = Some ls' \<Longrightarrow> linksClean fl ls'"
proof (induction ks)
  case Nil
  then show ?case by simp
next
  case (Cons f fs)
  have up: "\<And>img. map_of ls f = Some img \<Longrightarrow>
              linksClean fl (AList.update f (img\<lparr>sidecar := file\<rparr>) ls) \<and>
              linksClean fl (AList.update f (img\<lparr>video := file\<rparr>) ls)"
    using assms by (simp add: linksClean_update linkedClean_fields map_of_clean)
  from Cons up show ?case
    by (auto split: if_splits option.splits)
qed

lemma linkFile_clean:
  assumes "linksClean fl ls" and "scanInv fl s" and "\<not> BannedFiles fl file"
  shows "linksClean fl (fst (linkFile e file (ls, s))) \<and> scanInv fl (snd (linkFile e file (ls, s)))"
proof -
  let ?base = "TrimSuffix file (Ext file)"
  let ?ks = "rangeOrder e (ranges s) (sortedKeys ls)"
  have v0: "linksClean fl (AList.update file \<lparr>image' = [], video = file, sidecar = []\<rparr> ls)"
    using assms(1,3) by (simp add: linksClean_update linkedClean_def fieldClean_def)
  have ex: "\<And>img. map_of ls ?base = Some img \<Longrightarrow>
              linksClean fl (AList.update ?base (img\<lparr>sidecar := file\<rparr>) ls)"
    using assms(1,3) by (simp add: linksClean_update linkedClean_fields map_of_clean)
  have rs: "\<And>ls'. rangeSidecar ?base file ls ?ks = Some ls' \<Longrightarrow> linksClean fl ls'"
    using assms(1,3) by (rule linksClean_rangeSidecar)
  have rv: "\<And>ls'. rangeVideo ?base file ls ?ks = Some ls' \<Longrightarrow> linksClean fl ls'"
    using assms(1,3) by (rule linksClean_rangeVideo)
  have sr: "scanInv fl (s\<lparr>ranges := Suc (ranges s)\<rparr>)"
    using assms(2) by (rule scanInv_ranges)
  show ?thesis
  proof (cases "SupportedMedia (flags s) (Ext file)")
    case TypeUnknown
    with assms show ?thesis by (simp add: linkFile_def Let_def)
  next
    case TypeImage
    with assms show ?thesis by (simp add: linkFile_def Let_def)
  next
    case TypeVideo
    with assms v0 ex rv sr show ?thesis
      by (simp add: linkFile_def Let_def split: option.splits)
  next
    case TypeSidecar
    with assms ex rs sr show ?thesis
      by (simp add: linkFile_def Let_def split: option.splits)
  qed
qed

lemma linkFiles_clean:
  "linksClean fl (fst lss) \<Longrightarrow> scanInv fl (snd lss) \<Longrightarrow> \<forall>f \<in> set files. \<not> BannedFiles fl f \<Longrightarrow>
     linksClean fl (fst (linkFiles e files lss)) \<and> scanInv fl (snd (linkFiles e files lss))"
proof (induction files arbitrary: lss)
  case Nil
  then show ?case by simp
next
  case (Cons x xs)
  obtain ls s where lss: "lss = (ls, s)" by (cases lss)
  with Cons.prems linkFile_clean [of fl ls s x e]
  have "linksClean fl (fst (linkFile e x lss))" "scanInv fl (snd (linkFile e x lss))"
    by simp_all
  with Cons show ?case by simp
qed

lemma buildLinks_clean:
  assumes "scanInv fl s" and "\<forall>f \<in> set files. \<not> BannedFiles fl f"
  shows "linksClean fl (fst (buildLinks e files s))" and "scanInv fl (snd (buildLinks e files s))"
proof -
  have "linksClean fl []" by (simp add: linksClean_def)
  then have "linksClean fl (scanImages (flags s) files [])"
    using assms(2) by (rule linksClean_scanImages)
  with linkFiles_clean [of fl "(scanImages (flags s) files [], s)" files e] assms
  show "linksClean fl (fst (buildLinks e files s))"
    and "scanInv fl (snd (buildLinks e files s))"
    by (simp_all add: buildLinks_def)
qed


lemma assetFromFile_clean:
  assumes "assetFromFile e fsys name s = ((r, err), s')" and "scanInv fl s"
  shows "scanInv fl s'" and "r = Some a \<Longrightarrow> FileName a = name"
  using assms
  by (auto simp: assetFromFile_def scanInv_Record scanInv_Close split: sum.splits if_splits)

lemma scanInv_errFn: "scanInv fl s \<Longrightarrow> scanInv fl (errFn fsys name err s)"
  by (simp add: errFn_def scanInv_Record split: option.splits)

lemma buildSingle_clean:
  assumes "scanInv fl s" and "\<not> BannedFiles fl name"
  shows "scanInv fl (snd (buildSingle e fsys name s))"
    and "fst (buildSingle e fsys name s) = Built a g \<Longrightarrow> groupClean fl g"
proof -
  obtain r err s1 where c: "assetFromFile e fsys name s = ((r, err), s1)"
    by (cases "assetFromFile e fsys name s") auto
  note k = assetFromFile_clean [OF c assms(1)]
  show "scanInv fl (snd (buildSingle e fsys name s))"
    using c k(1) by (simp add: buildSingle_def scanInv_errFn split: option.splits)
  show "fst (buildSingle e fsys name s) = Built a g \<Longrightarrow> groupClean fl g"
    using c k(2) assms(2)
    by (auto simp: buildSingle_def groupClean_def newGroup_def split: option.splits)
qed

lemma buildGroup_clean:
  assumes "scanInv fl s" and "linkedClean fl linked"
  shows "scanInv fl (snd (buildGroup e fsys linked s))"
    and "fst (buildGroup e fsys linked s) = Built a g \<Longrightarrow> groupClean fl g"
proof -
  have both: "scanInv fl (snd (buildGroup e fsys linked s)) \<and>
              (fst (buildGroup e fsys linked s) = Built a g \<longrightarrow> groupClean fl g)"
  proof (cases "image' linked \<noteq> [] \<and> video linked \<noteq> []")
    case True
    with assms(2) have ni: "\<not> BannedFiles fl (image' linked)"
      and nv: "\<not> BannedFiles fl (video linked)"
      by (simp_all add: linkedClean_def fieldClean_def)
    obtain r err s1 where c: "assetFromFile e fsys (image' linked) s = ((r, err), s1)"
      by (cases "assetFromFile e fsys (image' linked) s") auto
    note k = assetFromFile_clean [OF c assms(1)]
    obtain r2 err2 s2 where c2: "assetFromFile e fsys (video linked) s1 = ((r2, err2), s2)"
      by (cases "assetFromFile e fsys (video linked) s1") auto
    note k2 = assetFromFile_clean [OF c2 k(1)]
    show ?thesis
    proof (cases err)
      case (Some x)
      with True c k(1) show ?thesis
        by (simp add: buildGroup_def scanInv_errFn split: option.splits)
    next
      case None
      note en = this
      show ?thesis
      proof (cases r)
        case None
        with True c en k(1) show ?thesis by (simp add: buildGroup_def)
      next
        case (Some a1)
        with k(2) have fa: "FileName a1 = image' linked" by simp
        show ?thesis
        proof (cases r2)
          case None
          with True c en Some c2 k2(1) fa ni show ?thesis
            by (auto simp: buildGroup_def scanInv_errFn groupClean_def newGroup_def)
        next
          case (Some i)
          with k2(2) have fi: "FileName i = video linked" by simp
          with True c en \<open>r = Some a1\<close> Some c2 k2(1) fa ni nv show ?thesis
            by (auto simp: buildGroup_def groupClean_def newGroup_def)
        qed
      qed
    qed
  next
    case False
    note nb = this
    show ?thesis
    proof (cases "image' linked \<noteq> []")
      case True
      with assms(2) have "\<not> BannedFiles fl (image' linked)"
        by (simp add: linkedClean_def fieldClean_def)
      from buildSingle_clean [OF assms(1) this] nb True show ?thesis
        by (simp add: buildGroup_def)
    next
      case False
      note ni = this
      show ?thesis
      proof (cases "video linked \<noteq> []")
        case True
        with assms(2) have "\<not> BannedFiles fl (video linked)"
          by (simp add: linkedClean_def fieldClean_def)
        from buildSingle_clean [OF assms(1) this] ni True show ?thesis
          by (simp add: buildGroup_def)
      next
        case False
        with ni assms(1) show ?thesis by (simp add: buildGroup_def)
      qed
    qed
  qed
  from both show "scanInv fl (snd (buildGroup e fsys linked s))" by simp
  from both show "fst (buildGroup e fsys linked s) = Built a g \<Longrightarrow> groupClean fl g" by simp
qed

lemma groupClean_manageAlbums:
  "groupClean fl g \<Longrightarrow> groupClean fl (manageAlbums fl' fsys a g)"
  by (simp add: groupClean_def manageAlbums_def Let_def split: folderMode.splits)

lemma scanInv_emit:
  assumes "scanInv fl s" and "groupClean fl g"
  shows "scanInv fl (snd (emit e g s))"
  using assms by (auto simp: emit_def poll_def scanInv_def split: option.splits)

lemma scanInv_processLinked:
  assumes "scanInv fl s" and "linkedClean fl linked"
  shows "scanInv fl (snd (processLinked e fsys linked s))"
proof -
  obtain b s1 where c: "buildGroup e fsys linked s = (b, s1)"
    by (cases "buildGroup e fsys linked s")
  with buildGroup_clean(1) [OF assms, of e fsys] have i1: "scanInv fl s1" by simp
  show ?thesis
  proof (cases b)
    case Abort
    with c i1 show ?thesis by (simp add: processLinked_def)
  next
    case Skip
    with c i1 show ?thesis by (simp add: processLinked_def)
  next
    case (Built a g)
    with c buildGroup_clean(2) [OF assms, of e fsys a g] have gc: "groupClean fl g" by simp
    show ?thesis
    proof (cases "sidecar linked \<noteq> []")
      case True
      with assms(2) have "\<not> BannedFiles fl (sidecar linked)"
        by (simp add: linkedClean_def fieldClean_def)
      with gc have "groupClean fl (g\<lparr>SideCar := Some (fsid fsys, sidecar linked)\<rparr>)"
        by (simp add: groupClean_def)
      with c Built True i1 show ?thesis
        by (simp add: processLinked_def attachSideCar_def scanInv_emit scanInv_Record
              groupClean_manageAlbums)
    next
      case False
      with c Built i1 gc show ?thesis
        by (simp add: processLinked_def attachSideCar_def scanInv_emit groupClean_manageAlbums)
    qed
  qed
qed

lemma scanInv_resolveLoop:
  "scanInv fl s \<Longrightarrow> linksClean fl ls \<Longrightarrow> scanInv fl (snd (resolveLoop e fsys ls ks s))"
proof (induction ks arbitrary: s)
  case Nil
  then show ?case by simp
next
  case (Cons k ks)
  obtain r s1 where c: "processLinked e fsys (linksAt ls k) s = (r, s1)"
    by (cases "processLinked e fsys (linksAt ls k) s")
  with scanInv_processLinked [OF Cons.prems(1) linksAt_clean [OF Cons.prems(2)], of e fsys k]
  have "scanInv fl s1" by simp
  with c Cons show ?case by (cases r) simp_all
qed

lemma scanInv_passTwoDir:
  assumes "scanInv fl s"
  shows "scanInv fl (snd (passTwoDir e fsys dir s))"
proof -
  have fc: "\<forall>f \<in> set (bucket s fsys dir). \<not> BannedFiles fl f"
    using assms bucket_clean by (auto simp: scanInv_def)
  obtain ls s1 where c: "buildLinks e (bucket s fsys dir) s = (ls, s1)"
    by (cases "buildLinks e (bucket s fsys dir) s")
  with buildLinks_clean [OF assms fc, of e] have "linksClean fl ls" "scanInv fl s1"
    by simp_all
  then have "scanInv fl (snd (resolveLoop e fsys ls (sortedKeys ls) s1))"
    by (simp add: scanInv_resolveLoop)
  with c assms show ?thesis by (simp add: passTwoDir_def Let_def)
qed

lemma scanInv_dirsLoop:
  "scanInv fl s \<Longrightarrow> scanInv fl (snd (dirsLoop e fsys dirs s))"
proof (induction dirs arbitrary: s)
  case Nil
  then show ?case by simp
next
  case (Cons dir dirs)
  obtain r s1 where c: "passTwoDir e fsys dir s = (r, s1)" by (cases "passTwoDir e fsys dir s")
  with scanInv_passTwoDir [OF Cons.prems, of e fsys dir] have "scanInv fl s1" by simp
  with c Cons show ?case by (cases r) simp_all
qed

lemma scanInv_fsysLoop:
  "scanInv fl s \<Longrightarrow> scanInv fl (snd (fsysLoop e fs s))"
proof (induction fs arbitrary: s)
  case Nil
  then show ?case by simp
next
  case (Cons fsys rest)
  obtain r s1 where c: "dirsLoop e fsys (sortedKeys (catalogOf s fsys)) s = (r, s1)"
    by (cases "dirsLoop e fsys (sortedKeys (catalogOf s fsys)) s")
  with scanInv_dirsLoop [OF Cons.prems, of e fsys "sortedKeys (catalogOf s fsys)"]
  have "scanInv fl s1" by simp
  with c Cons show ?case by (cases r) simp_all
qed

lemma scanInv_passTwo: "scanInv fl s \<Longrightarrow> scanInv fl (passTwo e s)"
  using scanInv_fsysLoop [of fl s e "fsyss s"]
  by (simp add: passTwo_def Let_def scanInv_def)

lemma scanInv_Browse:
  assumes "scanInv fl s"
  shows "scanInv fl (snd (Browse e s))"
proof -
  obtain r s1 where c: "passOneAll e (fsyss s) s = (r, s1)" by (cases "passOneAll e (fsyss s) s")
  with scanInv_passOneAll [OF assms, of e "fsyss s"] have "scanInv fl s1" by simp
  with c show ?thesis by (cases r) (simp_all add: Browse_def scanInv_passTwo)
qed

lemma scanInv_start:
  assumes "NewLocalFiles e l fl fs = Inr la"
  shows "scanInv fl (startScan la)"
  using assms
  by (auto simp: NewLocalFiles_def Let_def startScan_def scanInv_def catalogsClean_def
        split: if_splits sum.splits)

text \<open>
  C9: the callback of pass one on a file whose name the banned-name matcher matches (the
  context being live) records a discard event with reason "banned file", returns no
  error and leaves every candidate bucket as it was; and no group pushed by a scan of a
  freshly constructed browser holds an asset or a sidecar whose name is banned.
\<close>

theorem banned_file_never_grouped:
  "(BannedFiles (flags s) name \<and> ctx e (polls s) = None \<longrightarrow>
      walkFn e fsys name False None s =
        (None,
         s\<lparr>polls := Suc (polls s),
           log := log s @ [(DiscoveredDiscarded, fsid fsys, name,
                            [(''reason'', ''banned file'')])]\<rparr>)
      \<and> catalogs (snd (walkFn e fsys name False None s)) = catalogs s)
   \<and> (NewLocalFiles e l fl fs = Inr la \<and> g \<in> set (fileChan (snd (Browse e (startScan la)))) \<longrightarrow>
        (\<forall>a \<in> set (Assets g). \<not> BannedFiles fl (FileName a)) \<and>
        (\<forall>sc. SideCar g = Some sc \<longrightarrow> \<not> BannedFiles fl (snd sc)))"
proof (intro conjI impI)
  assume "BannedFiles (flags s) name \<and> ctx e (polls s) = None"
  then show "walkFn e fsys name False None s =
        (None,
         s\<lparr>polls := Suc (polls s),
           log := log s @ [(DiscoveredDiscarded, fsid fsys, name,
                            [(''reason'', ''banned file'')])]\<rparr>)"
    by (simp add: walkFn_def poll_def walkFile_def Record_def)
  then show "catalogs (snd (walkFn e fsys name False None s)) = catalogs s"
    by simp
next
  assume h: "NewLocalFiles e l fl fs = Inr la \<and> g \<in> set (fileChan (snd (Browse e (startScan la))))"
  then have "scanInv fl (startScan la)"
    using scanInv_start [of e l fl fs la] by simp
  then have "scanInv fl (snd (Browse e (startScan la)))"
    by (rule scanInv_Browse)
  with h have "groupClean fl g" by (simp add: scanInv_def)
  then show "\<forall>a \<in> set (Assets g). \<not> BannedFiles fl (FileName a)"
    and "\<forall>sc. SideCar g = Some sc \<longrightarrow> \<not> BannedFiles fl (snd sc)"
    by (simp_all add: groupClean_def)
qed

theorem banned_file_never_grouped_witness:
  "log (snd (walkFn demoEnv demoBanFS ''thumb.jpg'' False None (startScan demoBanBrowser)))
     = [(DiscoveredDiscarded, 0, ''thumb.jpg'', [(''reason'', ''banned file'')])]
   \<and> fileChan (snd (Browse demoEnv (startScan demoBanBrowser)))
     = [newGroup GroupKindNone [demoAsset ''a.jpg'']]
   \<and> \<not> BannedFiles demoBanFlags ''a.jpg''"
proof -
  let ?s = "startScan demoBanBrowser"
  let ?g = "newGroup GroupKindNone [demoAsset ''a.jpg'']"
  have b: "BannedFiles (flags ?s) ''thumb.jpg'' \<and> ctx demoEnv (polls ?s) = None"
    by (simp add: startScan_def demoBanBrowser_def demoBanFlags_def demoEnv_def)
  have n: "NewLocalFiles demoEnv [] demoBanFlags [demoBanFS] = Inr demoBanBrowser"
    by (simp add: NewLocalFiles_def demoBanBrowser_def demoBanFlags_def demoFlags_def)
  have f: "fileChan (snd (Browse demoEnv ?s)) = [?g]"
    by code_simp
  then have m: "?g \<in> set (fileChan (snd (Browse demoEnv ?s)))" by simp
  note t = banned_file_never_grouped
             [where s = ?s and name = "''thumb.jpg''" and e = demoEnv and fsys = demoBanFS
                and l = "[]" and fl = demoBanFlags and fs = "[demoBanFS]"
                and la = demoBanBrowser and g = ?g]
  from t b have w: "walkFn demoEnv demoBanFS ''thumb.jpg'' False None ?s =
        (None,
         ?s\<lparr>polls := Suc (polls ?s),
            log := log ?s @ [(DiscoveredDiscarded, fsid demoBanFS, ''thumb.jpg'',
                             [(''reason'', ''banned file'')])]\<rparr>)"
    by blast
  have l: "log (snd (walkFn demoEnv demoBanFS ''thumb.jpg'' False None ?s))
             = [(DiscoveredDiscarded, 0, ''thumb.jpg'', [(''reason'', ''banned file'')])]"
    by (simp add: w) (simp add: startScan_def demoBanBrowser_def demoBanFS_def demoFS_def)
  from t n m have "\<forall>a \<in> set (Assets ?g). \<not> BannedFiles demoBanFlags (FileName a)"
    by blast
  then have "\<not> BannedFiles demoBanFlags ''a.jpg''"
    by (simp add: newGroup_def demoAsset_def)
  with l f show ?thesis by simp
qed

subsection \<open>The order of a range over the link map\<close>

text \<open>
  C3, the code at the directory \<open>a.jpg\<close>, \<open>a.png\<close>, \<open>a.xmp\<close>: the sidecar matches both
  images in the fallback loop, and the entry it is attached to is the first one the
  \<open>range\<close> over the link map yields. Two runs on the same tree with the same flags that
  differ in that order alone push different groups: the sidecar goes with \<open>a.jpg\<close> in
  one and with \<open>a.png\<close> in the other.
\<close>

theorem range_order_changes_the_groups:
  "fileChan (snd (Browse demoEnv (demoState demoFlags [demoTieFS])))
     = [(newGroup GroupKindNone [demoAsset ''a.jpg''])\<lparr>SideCar := Some (0, ''a.xmp'')\<rparr>,
        newGroup GroupKindNone [demoAsset ''a.png'']]
   \<and> fileChan (snd (Browse (demoEnv\<lparr>rangeOrder := (\<lambda>n ks. rev ks)\<rparr>)
                        (demoState demoFlags [demoTieFS])))
     = [newGroup GroupKindNone [demoAsset ''a.jpg''],
        (newGroup GroupKindNone [demoAsset ''a.png''])\<lparr>SideCar := Some (0, ''a.xmp'')\<rparr>]"
  by code_simp

subsection \<open>Failure on a primary asset\<close>

text \<open>
  C2 as stated fails: on a tree with the images \<open>a.jpg\<close> and \<open>b.jpg\<close> where the stat of
  \<open>a.jpg\<close> fails, \<open>Browse\<close> returns no error; the failure is in the log alone, and
  what \<open>Browse\<close> returns and the channel carries are what a successful scan of an empty
  tree gives.
\<close>

theorem stat_failure_not_surfaced_counterexample:
  "fsStat demoAbortFS ''a.jpg'' = Inl (ErrExt ''stat failed'')
   \<and> fst (Browse demoEnv (demoState demoFlags [demoAbortFS])) = None
   \<and> fileChan (snd (Browse demoEnv (demoState demoFlags [demoAbortFS]))) = []
   \<and> log (snd (Browse demoEnv (demoState demoFlags [demoAbortFS])))
       = [(DiscoveredImage, 0, ''a.jpg'', []), (DiscoveredImage, 0, ''b.jpg'', []),
          (Error, 0, ''a.jpg'', [(''error'', ''stat failed'')])]
   \<and> fst (Browse demoEnv (demoState demoFlags [demoFS []])) = None
   \<and> fileChan (snd (Browse demoEnv (demoState demoFlags [demoFS []]))) = []"
  by code_simp

lemma assetFromFile_failure:
  assumes "ReadMetadata e (fsid fsys) p = Inl err \<or>
           (ReadMetadata e (fsid fsys) p = Inr d \<and> fsStat fsys p = Inl err)"
  shows "assetFromFile e fsys p s = ((None, Some err), Close fsys p s)"
  using assms by (auto simp: assetFromFile_def)

text \<open>A loop whose first part ran to its end goes on with the rest.\<close>

lemma resolveLoop_append:
  "resolveLoop e fsys ls ks1 s = (Next, s1) \<Longrightarrow>
     resolveLoop e fsys ls (ks1 @ ks) s = resolveLoop e fsys ls ks s1"
proof (induction ks1 arbitrary: s)
  case Nil
  then show ?case by simp
next
  case (Cons k ks1)
  obtain r t where c: "processLinked e fsys (linksAt ls k) s = (r, t)"
    by (cases "processLinked e fsys (linksAt ls k) s")
  with Cons show ?case by (cases r) simp_all
qed

lemma dirsLoop_append:
  "dirsLoop e fsys ds1 s = (Next, s1) \<Longrightarrow>
     dirsLoop e fsys (ds1 @ ds) s = dirsLoop e fsys ds s1"
proof (induction ds1 arbitrary: s)
  case Nil
  then show ?case by simp
next
  case (Cons d ds1)
  obtain r t where c: "passTwoDir e fsys d s = (r, t)" by (cases "passTwoDir e fsys d s")
  with Cons show ?case by (cases r) simp_all
qed

lemma fsysLoop_append:
  "fsysLoop e fs1 s = (Next, s1) \<Longrightarrow> fsysLoop e (fs1 @ fs) s = fsysLoop e fs s1"
proof (induction fs1 arbitrary: s)
  case Nil
  then show ?case by simp
next
  case (Cons f fs1)
  obtain r t where c: "dirsLoop e f (sortedKeys (catalogOf s f)) s = (r, t)"
    by (cases "dirsLoop e f (sortedKeys (catalogOf s f)) s")
  with Cons show ?case by (cases r) simp_all
qed

lemma fsyss_walkFn: "fsyss (snd (walkFn e fsys name isDir err s)) = fsyss s"
  by (simp add: walkFn_def poll_def walkFile_def walkInclude_def setBucket_def Record_def
        Let_def split: option.splits mediaType.splits)

lemma fsyss_passOneFsWalk: "fsyss (snd (passOneFsWalk e fsys s)) = fsyss s"
proof -
  have "(\<lambda>t. fsyss t = fsyss s) (snd (passOneFsWalk e fsys s))"
    unfolding passOneFsWalk_def
    by (rule scanInv_WalkDir) (simp_all add: fsyss_walkFn)
  then show ?thesis .
qed

lemma fsyss_passOneAll: "fsyss (snd (passOneAll e fs s)) = fsyss s"
proof (induction fs arbitrary: s)
  case Nil
  then show ?case by simp
next
  case (Cons f fs)
  obtain r t where c: "passOneFsWalk e f s = (r, t)" by (cases "passOneFsWalk e f s")
  with fsyss_passOneFsWalk [of e f s] have "fsyss t = fsyss s" by simp
  with c Cons show ?case by (cases r) simp_all
qed

lemma processLinked_primary_failure:
  assumes "p = (if image' linked \<noteq> [] then image' linked else video linked)"
      and "p \<noteq> []"
      and "ReadMetadata e (fsid fsys) p = Inl err \<or>
           (ReadMetadata e (fsid fsys) p = Inr d \<and> fsStat fsys p = Inl err)"
  shows "processLinked e fsys linked s =
           (Return,
            s\<lparr>closed := closed s @ [(fsid fsys, p)],
              log := log s @ [(Error, fsid fsys, p, [(''error'', errorString err)])]\<rparr>)"
proof -
  let ?s1 = "s\<lparr>closed := closed s @ [(fsid fsys, p)],
               log := log s @ [(Error, fsid fsys, p, [(''error'', errorString err)])]\<rparr>"
  have a: "assetFromFile e fsys p s = ((None, Some err), Close fsys p s)"
    using assms(3) by (rule assetFromFile_failure)
  have e1: "errFn fsys p (Some err) (Close fsys p s) = ?s1"
    by (simp add: errFn_def Record_def Close_def)
  have b: "buildGroup e fsys linked s = (Abort, ?s1)"
  proof (cases "image' linked \<noteq> []")
    case True
    with assms(1) have p: "p = image' linked" by simp
    show ?thesis
    proof (cases "video linked \<noteq> []")
      case True
      with \<open>image' linked \<noteq> []\<close> a e1 p show ?thesis by (simp add: buildGroup_def)
    next
      case False
      with \<open>image' linked \<noteq> []\<close> a e1 p show ?thesis
        by (simp add: buildGroup_def buildSingle_def)
    qed
  next
    case False
    with assms(1,2) have p: "p = video linked" "video linked \<noteq> []" by simp_all
    with False a e1 show ?thesis by (simp add: buildGroup_def buildSingle_def)
  qed
  then show ?thesis by (simp add: processLinked_def)
qed

text \<open>
  C2, amended: for every scan whose pass one succeeded, a metadata-read or stat failure
  on the primary asset of a link entry (its image, or its video when it has no image)
  aborts the scan wherever the entry stands: the trees, directories and entries before
  it having been processed, the handle is released, an error event is recorded for the
  asset, and the scan ends in that state (with the external tool closed when there is
  one), so that nothing is pushed for the remaining entries, directories and trees. The
  error is recorded only: \<open>Browse\<close> returns no error, its error being the one of pass
  one.
\<close>

theorem primary_failure_aborts_and_is_logged:
  assumes pass1: "passOneAll e (fsyss s0) s0 = (None, s)"
      and trees: "fsyss s0 = fs1 @ fsys # fs2"
      and before_tree: "fsysLoop e fs1 s = (Next, sa)"
      and dirs: "sortedKeys (catalogOf sa fsys) = ds1 @ dir # ds2"
      and before_dir: "dirsLoop e fsys ds1 sa = (Next, sb)"
      and files: "bucket sb fsys dir \<noteq> []"
      and built: "buildLinks e (bucket sb fsys dir) sb = (ls, sc)"
      and keys: "sortedKeys ls = ks1 @ k # ks2"
      and before_key: "resolveLoop e fsys ls ks1 sc = (Next, sd)"
      and entry: "linksAt ls k = linked"
      and primary: "p = (if image' linked \<noteq> [] then image' linked else video linked)"
      and set: "p \<noteq> []"
      and failure: "ReadMetadata e (fsid fsys) p = Inl err \<or>
                    (ReadMetadata e (fsid fsys) p = Inr d \<and> fsStat fsys p = Inl err)"
  shows "Browse e s0 =
           (None,
            if exiftool sd \<noteq> None
            then sd\<lparr>closed := closed sd @ [(fsid fsys, p)],
                    log := log sd @ [(Error, fsid fsys, p, [(''error'', errorString err)])],
                    exiftoolClosed := True\<rparr>
            else sd\<lparr>closed := closed sd @ [(fsid fsys, p)],
                    log := log sd @ [(Error, fsid fsys, p, [(''error'', errorString err)])]\<rparr>)
         \<and> fst (Browse e t) = fst (passOneAll e (fsyss t) t)"
proof
  let ?sf = "sd\<lparr>closed := closed sd @ [(fsid fsys, p)],
               log := log sd @ [(Error, fsid fsys, p, [(''error'', errorString err)])]\<rparr>"
  have "processLinked e fsys (linksAt ls k) sd = (Return, ?sf)"
    unfolding entry using primary set failure by (rule processLinked_primary_failure)
  then have "resolveLoop e fsys ls (k # ks2) sd = (Return, ?sf)" by simp
  with resolveLoop_append [OF before_key, of "k # ks2"] keys
  have "resolveLoop e fsys ls (sortedKeys ls) sc = (Return, ?sf)" by simp
  with files built have "passTwoDir e fsys dir sb = (Return, ?sf)"
    by (simp add: passTwoDir_def Let_def)
  then have "dirsLoop e fsys (dir # ds2) sb = (Return, ?sf)" by simp
  with dirsLoop_append [OF before_dir, of "dir # ds2"] dirs
  have "dirsLoop e fsys (sortedKeys (catalogOf sa fsys)) sa = (Return, ?sf)" by simp
  then have "fsysLoop e (fsys # fs2) sa = (Return, ?sf)" by simp
  with fsysLoop_append [OF before_tree, of "fsys # fs2"]
  have "fsysLoop e (fs1 @ fsys # fs2) s = (Return, ?sf)" by simp
  moreover have "fsyss s = fs1 @ fsys # fs2"
    using fsyss_passOneAll [of e "fsyss s0" s0] pass1 trees by simp
  ultimately have "passTwo e s = (if exiftool ?sf \<noteq> None then ?sf\<lparr>exiftoolClosed := True\<rparr> else ?sf)"
    by (simp add: passTwo_def Let_def)
  with pass1 show "Browse e s0 =
           (None,
            if exiftool sd \<noteq> None
            then sd\<lparr>closed := closed sd @ [(fsid fsys, p)],
                    log := log sd @ [(Error, fsid fsys, p, [(''error'', errorString err)])],
                    exiftoolClosed := True\<rparr>
            else ?sf)"
    by (simp add: Browse_def)
next
  show "fst (Browse e t) = fst (passOneAll e (fsyss t) t)"
    by (cases "passOneAll e (fsyss t) t") (auto simp: Browse_def split: option.splits)
qed

theorem primary_failure_aborts_and_is_logged_witness:
  "fst (Browse demoEnv demoScanStart) = None
   \<and> map (\<lambda>g. map FileName (Assets g)) (fileChan (snd (Browse demoEnv demoScanStart)))
     = [[''x.jpg''], [''a.jpg''], [''sub/c.jpg'']]
   \<and> last (log (snd (Browse demoEnv demoScanStart)))
     = (Error, 2, ''sub/d.jpg'', [(''error'', ''stat failed'')])
   \<and> closed (snd (Browse demoEnv demoScanStart)) = [(2, ''sub/d.jpg'')]"
proof -
  have "fst (passOneAll demoEnv (fsyss demoScanStart) demoScanStart) = None"
    by code_simp
  then have pass1: "passOneAll demoEnv (fsyss demoScanStart) demoScanStart = (None, demoScanS)"
    by (simp add: demoScanS_def prod_eq_iff)
  have trees: "fsyss demoScanStart = [demoScanFS1] @ demoScanFS2 # [demoScanFS3]"
    by (simp add: demoScanStart_def demoState_def startScan_def)
  have "fst (fsysLoop demoEnv [demoScanFS1] demoScanS) = Next"
    by code_simp
  then have before_tree: "fsysLoop demoEnv [demoScanFS1] demoScanS = (Next, demoScanSa)"
    by (simp add: demoScanSa_def prod_eq_iff)
  have dirs: "sortedKeys (catalogOf demoScanSa demoScanFS2) = [''.''] @ ''sub'' # [''zz'']"
    by code_simp
  have "fst (dirsLoop demoEnv demoScanFS2 [''.''] demoScanSa) = Next"
    by code_simp
  then have before_dir: "dirsLoop demoEnv demoScanFS2 [''.''] demoScanSa = (Next, demoScanSb)"
    by (simp add: demoScanSb_def prod_eq_iff)
  have files: "bucket demoScanSb demoScanFS2 ''sub'' \<noteq> []"
    by code_simp
  have built: "buildLinks demoEnv (bucket demoScanSb demoScanFS2 ''sub'') demoScanSb
                 = (demoScanLinks, demoScanSc)"
    by (simp add: demoScanLinks_def demoScanSc_def)
  have keys: "sortedKeys demoScanLinks = [''sub/c.jpg''] @ ''sub/d.jpg'' # []"
    by code_simp
  have "fst (resolveLoop demoEnv demoScanFS2 demoScanLinks [''sub/c.jpg''] demoScanSc) = Next"
    by code_simp
  then have before_key:
    "resolveLoop demoEnv demoScanFS2 demoScanLinks [''sub/c.jpg''] demoScanSc = (Next, demoScanSd)"
    by (simp add: demoScanSd_def prod_eq_iff)
  have entry: "linksAt demoScanLinks ''sub/d.jpg''
                 = \<lparr>image' = ''sub/d.jpg'', video = [], sidecar = []\<rparr>"
    by code_simp
  have primary: "''sub/d.jpg'' =
      (if image' \<lparr>image' = ''sub/d.jpg'', video = [], sidecar = []\<rparr> \<noteq> []
       then image' \<lparr>image' = ''sub/d.jpg'', video = [], sidecar = []\<rparr>
       else video \<lparr>image' = ''sub/d.jpg'', video = [], sidecar = []\<rparr>)"
    by simp
  have nonempty: "''sub/d.jpg'' \<noteq> []" by simp
  have failure:
    "ReadMetadata demoEnv (fsid demoScanFS2) ''sub/d.jpg'' = Inl (ErrExt ''stat failed'') \<or>
     (ReadMetadata demoEnv (fsid demoScanFS2) ''sub/d.jpg'' = Inr 0 \<and>
      fsStat demoScanFS2 ''sub/d.jpg'' = Inl (ErrExt ''stat failed''))"
    by (simp add: demoEnv_def demoScanFS2_def)
  have x: "exiftool demoScanSd = None" by code_simp
  have f: "map (\<lambda>g. map FileName (Assets g)) (fileChan demoScanSd)
             = [[''x.jpg''], [''a.jpg''], [''sub/c.jpg'']]"
    by code_simp
  have c: "closed demoScanSd = []" by code_simp
  have i: "fsid demoScanFS2 = 2" by (simp add: demoScanFS2_def)
  from primary_failure_aborts_and_is_logged
         [OF pass1 trees before_tree dirs before_dir files built keys before_key entry
             primary nonempty failure]
  have "Browse demoEnv demoScanStart =
          (None,
           demoScanSd\<lparr>closed := closed demoScanSd @ [(fsid demoScanFS2, ''sub/d.jpg'')],
                      log := log demoScanSd @ [(Error, fsid demoScanFS2, ''sub/d.jpg'',
                               [(''error'', errorString (ErrExt ''stat failed''))])]\<rparr>)"
    using x by simp
  then show ?thesis using f c i by simp
qed

subsection \<open>Album naming of a pushed group\<close>

text \<open>
  C8 as stated fails: under Folder mode, the asset \<open>c.jpg\<close> at the root of a tree whose
  name is the empty string is pushed in a group without any album, so it does not
  receive the name of the tree as title.
\<close>

theorem album_folder_root_empty_name_counterexample:
  "fsName (demoNamedFS []) = Some []
   \<and> UsePathAsAlbumName (demoFlags\<lparr>UsePathAsAlbumName := FolderModeFolder\<rparr>) = FolderModeFolder
   \<and> map (\<lambda>g. map FileName (Assets g))
        (fileChan (snd (Browse demoEnv
           (demoState (demoFlags\<lparr>UsePathAsAlbumName := FolderModeFolder\<rparr>) [demoNamedFS []]))))
     = [[''c.jpg'']]
   \<and> map Albums
        (fileChan (snd (Browse demoEnv
           (demoState (demoFlags\<lparr>UsePathAsAlbumName := FolderModeFolder\<rparr>) [demoNamedFS []]))))
     = [[]]"
  by code_simp

lemma buildSingle_keeps:
  assumes "buildSingle e fsys name s = (b, s1)"
  shows "polls s1 = polls s" and "fileChan s1 = fileChan s" and "flags s1 = flags s"
    and "b = Built a g \<Longrightarrow> Albums g = []"
proof -
  obtain r err t where c: "assetFromFile e fsys name s = ((r, err), t)"
    by (cases "assetFromFile e fsys name s") auto
  note k = assetFromFile_keeps [OF c]
  from assms c k show "polls s1 = polls s" and "fileChan s1 = fileChan s"
    and "flags s1 = flags s"
    by (auto simp: buildSingle_def errFn_keeps split: option.splits)
  from assms c show "b = Built a g \<Longrightarrow> Albums g = []"
    by (auto simp: buildSingle_def newGroup_def split: option.splits)
qed

lemma buildGroup_keeps:
  assumes "buildGroup e fsys linked s = (b, s1)"
  shows "polls s1 = polls s" and "fileChan s1 = fileChan s" and "flags s1 = flags s"
    and "b = Built a g \<Longrightarrow> Albums g = []"
proof -
  have all: "polls s1 = polls s \<and> fileChan s1 = fileChan s \<and> flags s1 = flags s \<and>
             (b = Built a g \<longrightarrow> Albums g = [])"
  proof (cases "image' linked \<noteq> [] \<and> video linked \<noteq> []")
    case True
    obtain r err t where c: "assetFromFile e fsys (image' linked) s = ((r, err), t)"
      by (cases "assetFromFile e fsys (image' linked) s") auto
    note k = assetFromFile_keeps [OF c]
    obtain r2 err2 t2 where c2: "assetFromFile e fsys (video linked) t = ((r2, err2), t2)"
      by (cases "assetFromFile e fsys (video linked) t") auto
    note k2 = assetFromFile_keeps [OF c2]
    from assms True c c2 k k2 show ?thesis
      by (auto simp: buildGroup_def errFn_keeps newGroup_def split: option.splits)
  next
    case False
    note nb = this
    show ?thesis
    proof (cases "image' linked \<noteq> []")
      case True
      with nb assms have "buildSingle e fsys (image' linked) s = (b, s1)"
        by (simp add: buildGroup_def)
      from buildSingle_keeps [OF this] show ?thesis by simp
    next
      case False
      note ni = this
      show ?thesis
      proof (cases "video linked \<noteq> []")
        case True
        with ni assms have "buildSingle e fsys (video linked) s = (b, s1)"
          by (simp add: buildGroup_def)
        from buildSingle_keeps [OF this] show ?thesis by simp
      next
        case False
        with ni assms show ?thesis by (simp add: buildGroup_def)
      qed
    qed
  qed
  from all show "polls s1 = polls s" and "fileChan s1 = fileChan s" and "flags s1 = flags s"
    by simp_all
  from all show "b = Built a g \<Longrightarrow> Albums g = []" by simp
qed

lemma manageAlbums_SideCar:
  "Albums (manageAlbums fl fsys a (g\<lparr>SideCar := x\<rparr>)) = Albums (manageAlbums fl fsys a g)"
  by (simp add: manageAlbums_def Let_def split: folderMode.splits)

text \<open>The group pushed for an entry carries the albums of the album block on the primary asset.\<close>

lemma processLinked_albums:
  assumes "buildGroup e fsys linked s = (Built a g0, s1)"
      and "ctx e (polls s) = None"
  shows "\<exists>g s'. processLinked e fsys linked s = (Next, s') \<and>
                fileChan s' = fileChan s @ [g] \<and>
                Albums g = Albums (manageAlbums (flags s) fsys a (g0\<lparr>Albums := []\<rparr>))"
proof -
  note k = buildGroup_keeps [OF assms(1)]
  from k(4) [of a g0] have g0: "g0\<lparr>Albums := []\<rparr> = g0" by simp
  show ?thesis
    using assms k(1-3)
    by (simp add: g0 processLinked_def attachSideCar_def emit_def poll_def Record_def
          manageAlbums_SideCar)
qed

lemma manageAlbums_folder_root_empty:
  assumes "CHR ''/'' \<notin> set r" and "ImportIntoAlbum fl = []"
      and "UsePathAsAlbumName fl = FolderModeFolder" and "fsName fsys = Some []"
      and "FileName a = r"
  shows "Albums (manageAlbums fl fsys a g) = Albums g"
  using assms by (simp add: manageAlbums_def Let_def Dir_no_slash Base_dot)

text \<open>
  C8, amended: without a fixed album, for every link entry of a tree with a name whose
  group is built and pushed (the context being live), the group pushed carries these
  albums, by the name of its primary asset: under Path mode with separator \<open>#\<close> on
  the tree named \<open>Lib\<close>, the asset \<open>a/b/c.jpg\<close> receives the title \<open>Lib#a#b\<close>; under
  Folder mode the same asset receives \<open>b\<close>; an asset at the root of the tree (a name
  without a slash) receives under Folder mode the name of the tree when that name is
  not empty and no album when it is empty, and under Path mode the name of the tree
  alone.
\<close>

theorem album_naming:
  assumes "buildGroup e fsys linked s = (Built a g0, s1)"
      and "ctx e (polls s) = None"
      and "ImportIntoAlbum (flags s) = []"
      and "fsName fsys = Some n"
      and "CHR ''/'' \<notin> set r"
  shows "\<exists>g s'. processLinked e fsys linked s = (Next, s') \<and>
                fileChan s' = fileChan s @ [g] \<and>
                (UsePathAsAlbumName (flags s) = FolderModePath \<and>
                 AlbumNamePathSeparator (flags s) = ''#'' \<and> n = ''Lib'' \<and>
                 FileName a = ''a/b/c.jpg'' \<longrightarrow> map AlbumTitle (Albums g) = [''Lib#a#b'']) \<and>
                (UsePathAsAlbumName (flags s) = FolderModeFolder \<and>
                 FileName a = ''a/b/c.jpg'' \<longrightarrow> map AlbumTitle (Albums g) = [''b'']) \<and>
                (UsePathAsAlbumName (flags s) = FolderModeFolder \<and> FileName a = r \<and> n \<noteq> [] \<longrightarrow>
                   map AlbumTitle (Albums g) = [n]) \<and>
                (UsePathAsAlbumName (flags s) = FolderModeFolder \<and> FileName a = r \<and> n = [] \<longrightarrow>
                   Albums g = []) \<and>
                (UsePathAsAlbumName (flags s) = FolderModePath \<and> FileName a = r \<longrightarrow>
                   map AlbumTitle (Albums g) = [n])"
proof -
  let ?g0 = "g0\<lparr>Albums := []\<rparr>"
  from processLinked_albums [OF assms(1,2)]
  obtain g s' where p: "processLinked e fsys linked s = (Next, s')"
    and f: "fileChan s' = fileChan s @ [g]"
    and a: "Albums g = Albums (manageAlbums (flags s) fsys a ?g0)"
    by blast
  note t = manageAlbums_titles [OF assms(5,3), of fsys a ?g0 n]
  have e: "UsePathAsAlbumName (flags s) = FolderModeFolder \<and> FileName a = r \<and> n = [] \<longrightarrow>
             Albums g = []"
    using manageAlbums_folder_root_empty [OF assms(5,3), of fsys a ?g0] assms(4) a by simp
  from t assms(4) a e p f
  have all: "processLinked e fsys linked s = (Next, s') \<and>
                fileChan s' = fileChan s @ [g] \<and>
                (UsePathAsAlbumName (flags s) = FolderModePath \<and>
                 AlbumNamePathSeparator (flags s) = ''#'' \<and> n = ''Lib'' \<and>
                 FileName a = ''a/b/c.jpg'' \<longrightarrow> map AlbumTitle (Albums g) = [''Lib#a#b'']) \<and>
                (UsePathAsAlbumName (flags s) = FolderModeFolder \<and>
                 FileName a = ''a/b/c.jpg'' \<longrightarrow> map AlbumTitle (Albums g) = [''b'']) \<and>
                (UsePathAsAlbumName (flags s) = FolderModeFolder \<and> FileName a = r \<and> n \<noteq> [] \<longrightarrow>
                   map AlbumTitle (Albums g) = [n]) \<and>
                (UsePathAsAlbumName (flags s) = FolderModeFolder \<and> FileName a = r \<and> n = [] \<longrightarrow>
                   Albums g = []) \<and>
                (UsePathAsAlbumName (flags s) = FolderModePath \<and> FileName a = r \<longrightarrow>
                   map AlbumTitle (Albums g) = [n])"
    by simp
  show ?thesis
    apply (rule exI [of _ g])
    apply (rule exI [of _ s'])
    apply (rule all)
    done
qed


lemma demo_buildGroup_image:
  assumes "nm \<noteq> []"
  shows "buildGroup demoEnv (demoNamedFS n) (demoImageEntry nm)
           (demoState (demoFlags\<lparr>UsePathAsAlbumName := m\<rparr>) [])
         = (Built (demoAsset nm) (newGroup GroupKindNone [demoAsset nm]),
            demoState (demoFlags\<lparr>UsePathAsAlbumName := m\<rparr>) [])"
  using assms
  by (simp add: buildGroup_def buildSingle_def assetFromFile_def demoImageEntry_def
        demoEnv_def demoNamedFS_def demoState_def startScan_def demoFlags_def demoAsset_def)

theorem album_naming_witness:
  "map (\<lambda>g. map AlbumTitle (Albums g))
     (fileChan (snd (processLinked demoEnv (demoNamedFS ''Lib'') (demoImageEntry ''a/b/c.jpg'')
                      (demoState (demoFlags\<lparr>UsePathAsAlbumName := FolderModePath\<rparr>) []))))
     = [[''Lib#a#b'']]
   \<and> map (\<lambda>g. map AlbumTitle (Albums g))
     (fileChan (snd (processLinked demoEnv (demoNamedFS ''Lib'') (demoImageEntry ''a/b/c.jpg'')
                      (demoState (demoFlags\<lparr>UsePathAsAlbumName := FolderModeFolder\<rparr>) []))))
     = [[''b'']]
   \<and> map (\<lambda>g. map AlbumTitle (Albums g))
     (fileChan (snd (processLinked demoEnv (demoNamedFS ''Lib'') (demoImageEntry ''c.jpg'')
                      (demoState (demoFlags\<lparr>UsePathAsAlbumName := FolderModeFolder\<rparr>) []))))
     = [[''Lib'']]
   \<and> map Albums
     (fileChan (snd (processLinked demoEnv (demoNamedFS []) (demoImageEntry ''c.jpg'')
                      (demoState (demoFlags\<lparr>UsePathAsAlbumName := FolderModeFolder\<rparr>) []))))
     = [[]]
   \<and> map (\<lambda>g. map AlbumTitle (Albums g))
     (fileChan (snd (processLinked demoEnv (demoNamedFS ''Lib'') (demoImageEntry ''c.jpg'')
                      (demoState (demoFlags\<lparr>UsePathAsAlbumName := FolderModePath\<rparr>) []))))
     = [[''Lib'']]"
proof -
  have inst: "\<And>m n nm. nm \<noteq> [] \<Longrightarrow>
    \<exists>g. fileChan (snd (processLinked demoEnv (demoNamedFS n) (demoImageEntry nm)
                         (demoState (demoFlags\<lparr>UsePathAsAlbumName := m\<rparr>) []))) = [g] \<and>
        (m = FolderModePath \<and> n = ''Lib'' \<and> nm = ''a/b/c.jpg'' \<longrightarrow>
           map AlbumTitle (Albums g) = [''Lib#a#b'']) \<and>
        (m = FolderModeFolder \<and> nm = ''a/b/c.jpg'' \<longrightarrow> map AlbumTitle (Albums g) = [''b'']) \<and>
        (m = FolderModeFolder \<and> nm = ''c.jpg'' \<and> n \<noteq> [] \<longrightarrow> map AlbumTitle (Albums g) = [n]) \<and>
        (m = FolderModeFolder \<and> nm = ''c.jpg'' \<and> n = [] \<longrightarrow> Albums g = []) \<and>
        (m = FolderModePath \<and> nm = ''c.jpg'' \<longrightarrow> map AlbumTitle (Albums g) = [n])"
  proof -
    fix m n and nm :: string
    assume nm: "nm \<noteq> []"
    let ?s = "demoState (demoFlags\<lparr>UsePathAsAlbumName := m\<rparr>) []"
    have fl: "flags ?s = demoFlags\<lparr>UsePathAsAlbumName := m\<rparr>" and ch: "fileChan ?s = []"
      by (simp_all add: demoState_def startScan_def)
    have c: "ctx demoEnv (polls ?s) = None" by (simp add: demoEnv_def)
    have i: "ImportIntoAlbum (flags ?s) = []" by (simp add: demoState_def startScan_def demoFlags_def)
    have f: "fsName (demoNamedFS n) = Some n" by (simp add: demoNamedFS_def)
    have ns: "CHR ''/'' \<notin> set ''c.jpg''" by simp
    have fa: "FileName (demoAsset nm) = nm" by (simp add: demoAsset_def)
    have md: "UsePathAsAlbumName (flags ?s) = m" "AlbumNamePathSeparator (flags ?s) = ''#''"
      by (simp_all add: demoState_def startScan_def demoFlags_def)
    from album_naming [OF demo_buildGroup_image [OF nm] c i f ns]
    obtain g s' where
      all: "processLinked demoEnv (demoNamedFS n) (demoImageEntry nm) ?s = (Next, s') \<and>
          fileChan s' = fileChan ?s @ [g] \<and>
          (UsePathAsAlbumName (flags ?s) = FolderModePath \<and>
               AlbumNamePathSeparator (flags ?s) = ''#'' \<and> n = ''Lib'' \<and>
               FileName (demoAsset nm) = ''a/b/c.jpg'' \<longrightarrow>
                 map AlbumTitle (Albums g) = [''Lib#a#b'']) \<and>
              (UsePathAsAlbumName (flags ?s) = FolderModeFolder \<and>
               FileName (demoAsset nm) = ''a/b/c.jpg'' \<longrightarrow> map AlbumTitle (Albums g) = [''b'']) \<and>
              (UsePathAsAlbumName (flags ?s) = FolderModeFolder \<and>
               FileName (demoAsset nm) = ''c.jpg'' \<and> n \<noteq> [] \<longrightarrow>
                 map AlbumTitle (Albums g) = [n]) \<and>
              (UsePathAsAlbumName (flags ?s) = FolderModeFolder \<and>
               FileName (demoAsset nm) = ''c.jpg'' \<and> n = [] \<longrightarrow> Albums g = []) \<and>
              (UsePathAsAlbumName (flags ?s) = FolderModePath \<and>
               FileName (demoAsset nm) = ''c.jpg'' \<longrightarrow> map AlbumTitle (Albums g) = [n])"
      by (elim exE) (rule that)
    from all have
      p: "processLinked demoEnv (demoNamedFS n) (demoImageEntry nm) ?s = (Next, s')"
      and q: "fileChan s' = fileChan ?s @ [g]"
      and r: "(UsePathAsAlbumName (flags ?s) = FolderModePath \<and>
               AlbumNamePathSeparator (flags ?s) = ''#'' \<and> n = ''Lib'' \<and>
               FileName (demoAsset nm) = ''a/b/c.jpg'' \<longrightarrow>
                 map AlbumTitle (Albums g) = [''Lib#a#b'']) \<and>
              (UsePathAsAlbumName (flags ?s) = FolderModeFolder \<and>
               FileName (demoAsset nm) = ''a/b/c.jpg'' \<longrightarrow> map AlbumTitle (Albums g) = [''b'']) \<and>
              (UsePathAsAlbumName (flags ?s) = FolderModeFolder \<and>
               FileName (demoAsset nm) = ''c.jpg'' \<and> n \<noteq> [] \<longrightarrow>
                 map AlbumTitle (Albums g) = [n]) \<and>
              (UsePathAsAlbumName (flags ?s) = FolderModeFolder \<and>
               FileName (demoAsset nm) = ''c.jpg'' \<and> n = [] \<longrightarrow> Albums g = []) \<and>
              (UsePathAsAlbumName (flags ?s) = FolderModePath \<and>
               FileName (demoAsset nm) = ''c.jpg'' \<longrightarrow> map AlbumTitle (Albums g) = [n])"
      by simp_all
    from p q ch have "fileChan (snd (processLinked demoEnv (demoNamedFS n) (demoImageEntry nm) ?s))
                        = [g]"
      by simp
    moreover from r have
      "(m = FolderModePath \<and> n = ''Lib'' \<and> nm = ''a/b/c.jpg'' \<longrightarrow>
           map AlbumTitle (Albums g) = [''Lib#a#b'']) \<and>
        (m = FolderModeFolder \<and> nm = ''a/b/c.jpg'' \<longrightarrow> map AlbumTitle (Albums g) = [''b'']) \<and>
        (m = FolderModeFolder \<and> nm = ''c.jpg'' \<and> n \<noteq> [] \<longrightarrow> map AlbumTitle (Albums g) = [n]) \<and>
        (m = FolderModeFolder \<and> nm = ''c.jpg'' \<and> n = [] \<longrightarrow> Albums g = []) \<and>
        (m = FolderModePath \<and> nm = ''c.jpg'' \<longrightarrow> map AlbumTitle (Albums g) = [n])"
      unfolding md fa by simp
    ultimately show "\<exists>g. fileChan (snd (processLinked demoEnv (demoNamedFS n) (demoImageEntry nm)
                         ?s)) = [g] \<and>
        (m = FolderModePath \<and> n = ''Lib'' \<and> nm = ''a/b/c.jpg'' \<longrightarrow>
           map AlbumTitle (Albums g) = [''Lib#a#b'']) \<and>
        (m = FolderModeFolder \<and> nm = ''a/b/c.jpg'' \<longrightarrow> map AlbumTitle (Albums g) = [''b'']) \<and>
        (m = FolderModeFolder \<and> nm = ''c.jpg'' \<and> n \<noteq> [] \<longrightarrow> map AlbumTitle (Albums g) = [n]) \<and>
        (m = FolderModeFolder \<and> nm = ''c.jpg'' \<and> n = [] \<longrightarrow> Albums g = []) \<and>
        (m = FolderModePath \<and> nm = ''c.jpg'' \<longrightarrow> map AlbumTitle (Albums g) = [n])"
      by (intro exI [of _ g]) simp
  qed
  have l: "''a/b/c.jpg'' \<noteq> []" and c: "''c.jpg'' \<noteq> []" by simp_all
  from inst [OF l, where m = FolderModePath and n = "''Lib''"]
       inst [OF l, where m = FolderModeFolder and n = "''Lib''"]
       inst [OF c, where m = FolderModeFolder and n = "''Lib''"]
       inst [OF c, where m = FolderModeFolder and n = "[]"]
       inst [OF c, where m = FolderModePath and n = "''Lib''"]
  show ?thesis by auto
qed

end
